theory Spec2Isabelle
  imports Complex_Main "HOL-Library.Word"
begin

section \<open>Byte arrays and strings\<close>

text \<open>
  A \<open>QByteArray\<close> is a sequence of 8-bit bytes: HOL's \<open>char\<close> is exactly one byte, so a
  byte array is a \<open>string\<close>.  A \<open>QString\<close> is a sequence of UTF-16 code units
  (\<open>QChar\<close>), and \<open>size()\<close> counts code units.
\<close>

type_synonym QByteArray = "char list"
type_synonym QChar = "16 word"
type_synonym QString = "QChar list"

definition CRLF :: QByteArray where
  "CRLF = [CHR 0x0D, CHR 0x0A]"

text \<open>\<open>QByteArray::size\<close>, \<open>QString::size\<close>: a C++ \<open>int\<close>.\<close>

definition size_of :: "'a list \<Rightarrow> int" where
  "size_of xs = int (length xs)"

text \<open>\<open>QByteArray::mid(pos, len)\<close> for \<open>0 \<le> pos\<close> and \<open>0 \<le> len\<close>: the bytes that exist in
  that window (fewer than \<open>len\<close> at the end of the array).\<close>

definition mid :: "'a list \<Rightarrow> nat \<Rightarrow> nat \<Rightarrow> 'a list" where
  "mid xs pos len = take len (drop pos xs)"

text \<open>\<open>QByteArrayList::join(sep)\<close>.\<close>

fun join :: "QByteArray \<Rightarrow> QByteArray list \<Rightarrow> QByteArray" where
  "join sep [] = []"
| "join sep [w] = w"
| "join sep (w # v # ws) = w @ sep @ join sep (v # ws)"

text \<open>A string literal of the source (\<open>QStringLiteral\<close>, \<open>QString::fromLatin1\<close>): every
  byte becomes the code unit of the same value.\<close>

definition fromLatin1 :: "QByteArray \<Rightarrow> QString" where
  "fromLatin1 bs = map (\<lambda>c. of_nat (of_char c)) bs"

text \<open>\<open>QString::toLatin1\<close>: code units above 255 have no Latin-1 byte and become \<open>?\<close>.\<close>

definition toLatin1 :: "QString \<Rightarrow> QByteArray" where
  "toLatin1 s = map (\<lambda>u. if unat u < 256 then char_of (unat u) else CHR ''?'') s"

text \<open>
  \<open>QString::toUtf8\<close>.  A code point is written in one to four bytes; a surrogate pair is
  one code point; a surrogate with no partner is an encoding error, for which Qt writes
  \<open>?\<close> and goes on with the next code unit.
\<close>

definition utf8_of_codepoint :: "nat \<Rightarrow> QByteArray" where
  "utf8_of_codepoint cp =
     (if cp < 0x80 then [char_of cp]
      else if cp < 0x800 then
        [char_of (0xC0 + cp div 64), char_of (0x80 + cp mod 64)]
      else if cp < 0x10000 then
        [char_of (0xE0 + cp div 4096), char_of (0x80 + (cp div 64) mod 64),
         char_of (0x80 + cp mod 64)]
      else
        [char_of (0xF0 + cp div 262144), char_of (0x80 + (cp div 4096) mod 64),
         char_of (0x80 + (cp div 64) mod 64), char_of (0x80 + cp mod 64)])"

definition isHighSurrogate :: "QChar \<Rightarrow> bool" where
  "isHighSurrogate u = (0xD800 \<le> unat u \<and> unat u \<le> 0xDBFF)"

definition isLowSurrogate :: "QChar \<Rightarrow> bool" where
  "isLowSurrogate u = (0xDC00 \<le> unat u \<and> unat u \<le> 0xDFFF)"

fun toUtf8 :: "QString \<Rightarrow> QByteArray" where
  "toUtf8 [] = []"
| "toUtf8 [u] =
     (if isHighSurrogate u \<or> isLowSurrogate u then ''?'' else utf8_of_codepoint (unat u))"
| "toUtf8 (u # l # rest) =
     (if isHighSurrogate u then
        (if isLowSurrogate l then
           utf8_of_codepoint (0x10000 + (unat u - 0xD800) * 1024 + (unat l - 0xDC00))
             @ toUtf8 rest
         else ''?'' @ toUtf8 (l # rest))
      else if isLowSurrogate u then ''?'' @ toUtf8 (l # rest)
      else utf8_of_codepoint (unat u) @ toUtf8 (l # rest))"

text \<open>\<open>QByteArray::toHex\<close> (lowercase digits) and \<open>QByteArray::toUpper\<close> (ASCII letters).\<close>

definition hex_digit :: "nat \<Rightarrow> char" where
  "hex_digit n = ''0123456789abcdef'' ! (n mod 16)"

definition toHex :: "QByteArray \<Rightarrow> QByteArray" where
  "toHex bs = concat (map (\<lambda>c. [hex_digit (of_char c div 16), hex_digit (of_char c mod 16)]) bs)"

definition upper_char :: "char \<Rightarrow> char" where
  "upper_char c =
     (if (97::nat) \<le> of_char c \<and> of_char c \<le> (122::nat) then char_of (of_char c - (32::nat))
      else c)"

definition toUpper :: "QByteArray \<Rightarrow> QByteArray" where
  "toUpper bs = map upper_char bs"

section \<open>Quoted-printable encoding (smtp\_mime.cpp)\<close>

text \<open>The conversion of a byte to the \<open>qint8\<close> parameter: bytes from 128 are negative.\<close>

definition to_qint8 :: "char \<Rightarrow> int" where
  "to_qint8 c = (if (of_char c :: nat) < 128 then int (of_char c) else int (of_char c) - 256)"

definition pn_needEscapeForQuotedPrintableEncoding :: "int \<Rightarrow> bool" where
  "pn_needEscapeForQuotedPrintableEncoding input =
     (if input \<ge> 48 \<and> input \<le> 57 then False
      else if input \<ge> 65 \<and> input \<le> 90 then False
      else if input \<ge> 97 \<and> input \<le> 122 then False
      else True)"

text \<open>The loop of \<open>encodeQuotedPrintable\<close> over the UTF-8 bytes, appending to the output.\<close>

fun qp_loop :: "QByteArray \<Rightarrow> QByteArray \<Rightarrow> QByteArray" where
  "qp_loop output [] = output"
| "qp_loop output (inputChar # rest) =
     (if pn_needEscapeForQuotedPrintableEncoding (to_qint8 inputChar)
      then qp_loop (output @ (CHR ''='' # toUpper (toHex [inputChar]))) rest
      else qp_loop (output @ [inputChar]) rest)"

definition encodeQuotedPrintable :: "QString \<Rightarrow> QByteArray" where
  "encodeQuotedPrintable text =
     (if text = [] then [] else qp_loop [] (toUtf8 text))"

text \<open>
  \<open>formatQuotedPrintableIntoLines\<close>.  The loop state is the part of \<open>encoded\<close> from index
  \<open>ix\<close> on and \<open>lastLineSize\<close>; \<open>encoded.mid(ix, requiredBytes)\<close> is the \<open>take\<close>, and
  \<open>ix += requiredBytes\<close> the \<open>drop\<close>.
\<close>

function qp_lines_loop :: "int \<Rightarrow> int \<Rightarrow> QByteArray \<Rightarrow> QByteArray" where
  "qp_lines_loop maxSrcCharsForLine lastLineSize [] = []"
| "qp_lines_loop maxSrcCharsForLine lastLineSize (c # cs) =
     (let requiredBytes = (if c = CHR ''='' then 3 else 1 :: nat) in
      if lastLineSize + int requiredBytes > maxSrcCharsForLine
      then ''='' @ CRLF @ mid (c # cs) 0 requiredBytes
             @ qp_lines_loop maxSrcCharsForLine (0 + int requiredBytes) (drop requiredBytes (c # cs))
      else mid (c # cs) 0 requiredBytes
             @ qp_lines_loop maxSrcCharsForLine (lastLineSize + int requiredBytes)
                 (drop requiredBytes (c # cs)))"
  by pat_completeness auto
termination
  by (relation "measure (\<lambda>(m, l, e). length e)") auto

definition formatQuotedPrintableIntoLines :: "QByteArray \<Rightarrow> int \<Rightarrow> QByteArray" where
  "formatQuotedPrintableIntoLines encoded maxLineSize =
     (if maxLineSize \<le> 0 then encoded
      else if encoded = [] then encoded
      else qp_lines_loop (maxLineSize - 1) 0 encoded)"

text \<open>\<open>formatDataIntoLines\<close>: a hard break before the byte that would pass \<open>maxLineSize\<close>.\<close>

fun data_lines_loop :: "int \<Rightarrow> int \<Rightarrow> QByteArray \<Rightarrow> QByteArray" where
  "data_lines_loop maxLineSize lastLineSize [] = []"
| "data_lines_loop maxLineSize lastLineSize (byteVal # rest) =
     (if lastLineSize \<ge> maxLineSize
      then CRLF @ byteVal # data_lines_loop maxLineSize (0 + 1) rest
      else byteVal # data_lines_loop maxLineSize (lastLineSize + 1) rest)"

definition formatDataIntoLines :: "QByteArray \<Rightarrow> int \<Rightarrow> QByteArray" where
  "formatDataIntoLines data maxLineSize =
     (if maxLineSize \<le> 0 then data
      else if data = [] then data
      else data_lines_loop maxLineSize 0 data)"

definition MaxLineSize :: int where
  "MaxLineSize = 76"

definition MaxMimeWordSize :: int where
  "MaxMimeWordSize = 60"

section \<open>Encoded words (smtp\_mime.cpp)\<close>

text \<open>\<open>QByteArray::toBase64\<close>: the standard alphabet, padded with \<open>=\<close>.\<close>

definition base64_char :: "nat \<Rightarrow> char" where
  "base64_char n =
     ''ABCDEFGHIJKLMNOPQRSTUVWXYZabcdefghijklmnopqrstuvwxyz0123456789+/'' ! (n mod 64)"

fun toBase64 :: "QByteArray \<Rightarrow> QByteArray" where
  "toBase64 [] = []"
| "toBase64 [a] =
     [base64_char (of_char a div 4), base64_char ((of_char a mod 4) * 16), CHR ''='', CHR ''='']"
| "toBase64 [a, b] =
     [base64_char (of_char a div 4),
      base64_char ((of_char a mod 4) * 16 + of_char b div 16),
      base64_char ((of_char b mod 16) * 4), CHR ''='']"
| "toBase64 (a # b # c # rest) =
     [base64_char (of_char a div 4),
      base64_char ((of_char a mod 4) * 16 + of_char b div 16),
      base64_char ((of_char b mod 16) * 4 + of_char c div 64),
      base64_char (of_char c mod 64)] @ toBase64 rest"

text \<open>\<open>pn_splitTextIntoChunks\<close>: the loop appends a new chunk when there is none or the
  last one is full, then appends the character to the last chunk.\<close>

fun split_loop :: "int \<Rightarrow> QString list \<Rightarrow> QString \<Rightarrow> QString list" where
  "split_loop maxChunkSize chunks [] = chunks"
| "split_loop maxChunkSize chunks (charVal # rest) =
     (let chunks1 = (if chunks = [] \<or> size_of (last chunks) \<ge> maxChunkSize
                     then chunks @ [[]] else chunks)
      in split_loop maxChunkSize (butlast chunks1 @ [last chunks1 @ [charVal]]) rest)"

definition pn_splitTextIntoChunks :: "QString \<Rightarrow> int \<Rightarrow> QString list" where
  "pn_splitTextIntoChunks text maxChunkSize =
     (if text = [] then []
      else if maxChunkSize \<le> 0 \<or> maxChunkSize \<ge> size_of text then [text]
      else split_loop maxChunkSize [] text)"

text \<open>The loop of \<open>encodeMimeWordQ\<close> over the chunks: the words and the size of the
  longest one.\<close>

fun wordsQ_loop :: "QByteArray list \<Rightarrow> int \<Rightarrow> QString list \<Rightarrow> QByteArray list \<times> int" where
  "wordsQ_loop words longestWordSize [] = (words, longestWordSize)"
| "wordsQ_loop words longestWordSize (textChunk # rest) =
     (let word = ''=?utf-8?Q?'' @ encodeQuotedPrintable textChunk @ ''?=''
      in wordsQ_loop (words @ [word]) (max longestWordSize (size_of word)) rest)"

text \<open>The \<open>while (true)\<close> of \<open>encodeMimeWordQ\<close>; \<open>/\<close> and \<open>%\<close> are applied to a size above
  1 only, where C++ and HOL agree.\<close>

lemma halve_less: "\<not> (n::int) \<le> 1 \<Longrightarrow> n div 2 + n mod 2 < n"
  by presburger

function encodeMimeWordQ_loop :: "QString \<Rightarrow> int \<Rightarrow> int \<Rightarrow> QByteArray" where
  "encodeMimeWordQ_loop text maxWordSize maxEncodedTextSize =
     (let chunks = pn_splitTextIntoChunks text maxEncodedTextSize;
          (words, longestWordSize) = wordsQ_loop [] 0 chunks
      in if longestWordSize \<le> maxWordSize \<or> maxEncodedTextSize \<le> 1
         then join (CRLF @ '' '') words
         else encodeMimeWordQ_loop text maxWordSize
                ((maxEncodedTextSize div 2) + (maxEncodedTextSize mod 2)))"
  by pat_completeness auto
termination
  by (relation "measure (\<lambda>(t, w, n). nat n)") (auto simp: halve_less)

definition encodeMimeWordQ :: "QString \<Rightarrow> int \<Rightarrow> QByteArray" where
  "encodeMimeWordQ text maxWordSize =
     (if text = [] then [] else encodeMimeWordQ_loop text maxWordSize (size_of text))"

fun wordsB_loop :: "QByteArray list \<Rightarrow> int \<Rightarrow> QString list \<Rightarrow> QByteArray list \<times> int" where
  "wordsB_loop words longestWordSize [] = (words, longestWordSize)"
| "wordsB_loop words longestWordSize (textChunk # rest) =
     (let word = ''=?utf-8?B?'' @ toBase64 (toUtf8 textChunk) @ ''?=''
      in wordsB_loop (words @ [word]) (max longestWordSize (size_of word)) rest)"

function encodeMimeWordB_loop :: "QString \<Rightarrow> int \<Rightarrow> int \<Rightarrow> QByteArray" where
  "encodeMimeWordB_loop text maxWordSize maxEncodedTextSize =
     (let chunks = pn_splitTextIntoChunks text maxEncodedTextSize;
          (words, longestWordSize) = wordsB_loop [] 0 chunks
      in if longestWordSize \<le> maxWordSize \<or> maxEncodedTextSize \<le> 1
         then join (CRLF @ '' '') words
         else encodeMimeWordB_loop text maxWordSize
                ((maxEncodedTextSize div 2) + (maxEncodedTextSize mod 2)))"
  by pat_completeness auto
termination
  by (relation "measure (\<lambda>(t, w, n). nat n)") (auto simp: halve_less)

definition encodeMimeWordB :: "QString \<Rightarrow> int \<Rightarrow> QByteArray" where
  "encodeMimeWordB text maxWordSize =
     (if text = [] then [] else encodeMimeWordB_loop text maxWordSize (size_of text))"

section \<open>MIME parts (smtp\_mime.h, smtp\_mime.cpp)\<close>

text \<open>
  What the library takes from its environment: the device written to (\<open>QIODevice::write\<close>
  returns the number of bytes it took), the source of UUIDs (the 16 bytes of the \<open>n\<close>-th
  call of \<open>QUuid::createUuid\<close>) and the clock (the RFC 2822 text of the current time).
\<close>

record 'd QtEnv =
  dev_write :: "'d \<Rightarrow> QByteArray \<Rightarrow> 'd \<times> int"
  createUuid :: "nat \<Rightarrow> QByteArray"
  currentDateTime :: QString

text \<open>The state a serialisation runs in: the device and the number of UUIDs drawn.\<close>

record 'd io_state =
  device :: 'd
  uuid_calls :: nat

text \<open>A \<open>QBuffer\<close> opened for writing takes every write whole.\<close>

definition buffer_write :: "QByteArray \<Rightarrow> QByteArray \<Rightarrow> QByteArray \<times> int" where
  "buffer_write buf data = (buf @ data, size_of data)"

definition writeDataToDev ::
  "'d QtEnv \<Rightarrow> QByteArray \<Rightarrow> 'd io_state \<Rightarrow> bool \<times> 'd io_state" where
  "writeDataToDev env data st =
     (case dev_write env (device st) data of
        (dev', n) \<Rightarrow> (n = size_of data, st\<lparr>device := dev'\<rparr>))"

text \<open>\<open>if (!first) return false; second\<close>: the second step runs only after the first
  succeeded.\<close>

definition and_then ::
  "('s \<Rightarrow> bool \<times> 's) \<Rightarrow> ('s \<Rightarrow> bool \<times> 's) \<Rightarrow> 's \<Rightarrow> bool \<times> 's" where
  "and_then first second st =
     (case first st of (ok, st1) \<Rightarrow> if \<not> ok then (False, st1) else second st1)"

datatype ContentTransferEncoding =
  ContentNotEncoded | ContentBase64Encoded | ContentQuotedPrintableEncoded

datatype Disposition = NoDisposition | DisposeInline | DisposeAsAttachment

text \<open>The members of the base class \<open>MimePart\<close>.\<close>

record MimePartData =
  contentType :: QByteArray
  contentName :: QByteArray
  contentCharset :: QByteArray
  contentTransferEncoding :: ContentTransferEncoding

text \<open>The subclasses of \<open>MimePart\<close>; \<open>MimeInlineFile\<close> and \<open>MimeAttachmentFile\<close> are
  \<open>MimeFile\<close> with the disposition set.\<close>

datatype MimePart =
    MimeText MimePartData QString
  | MimeHtml MimePartData QString
  | MimeFile MimePartData QByteArray Disposition
  | MimeMultiPartMixed MimePartData "MimePart list"

definition newMimePart :: "QByteArray \<Rightarrow> MimePartData" where
  "newMimePart ctype =
     \<lparr>contentType = ctype, contentName = [], contentCharset = [],
      contentTransferEncoding = ContentNotEncoded\<rparr>"

definition newMimeText :: "QString \<Rightarrow> MimePart" where
  "newMimeText text =
     MimeText ((newMimePart ''text/plain'')
        \<lparr>contentCharset := ''UTF-8'',
         contentTransferEncoding := ContentQuotedPrintableEncoded\<rparr>) text"

definition newMimeHtml :: "QString \<Rightarrow> MimePart" where
  "newMimeHtml html =
     MimeHtml ((newMimePart ''text/html'')
        \<lparr>contentCharset := ''UTF-8'',
         contentTransferEncoding := ContentQuotedPrintableEncoded\<rparr>) html"

definition newMimeMultiPartMixed :: "MimePart list \<Rightarrow> MimePart" where
  "newMimeMultiPartMixed parts = MimeMultiPartMixed (newMimePart ''multipart/mixed'') parts"

definition writeStdHeadersToDev ::
  "'d QtEnv \<Rightarrow> MimePartData \<Rightarrow> QByteArray \<Rightarrow> 'd io_state \<Rightarrow> bool \<times> 'd io_state" where
  "writeStdHeadersToDev env part boundary st =
     (if contentType part = [] then (False, st)
      else
        let fullContentType =
              ''Content-Type: '' @ contentType part
              @ (if contentName part \<noteq> []
                 then '';'' @ CRLF @ ''  name=\"'' @ contentName part @ ''\"'' else [])
              @ (if contentCharset part \<noteq> []
                 then '';'' @ CRLF @ ''  charset='' @ contentCharset part else [])
              @ (if boundary \<noteq> []
                 then '';'' @ CRLF @ ''  boundary='' @ boundary else [])
              @ CRLF;
            encoding =
              (if contentTransferEncoding part = ContentBase64Encoded
               then ''Content-Transfer-Encoding: base64'' @ CRLF
               else if contentTransferEncoding part = ContentQuotedPrintableEncoded
               then ''Content-Transfer-Encoding: quoted-printable'' @ CRLF
               else [])
        in and_then (writeDataToDev env fullContentType)
             (\<lambda>st1. if encoding \<noteq> [] then writeDataToDev env encoding st1 else (True, st1))
             st)"

definition MimeText_writeToDev ::
  "'d QtEnv \<Rightarrow> MimePartData \<Rightarrow> QString \<Rightarrow> 'd io_state \<Rightarrow> bool \<times> 'd io_state" where
  "MimeText_writeToDev env part text st =
     (if text = [] then (False, st)
      else
        and_then (writeStdHeadersToDev env part [])
       (and_then (writeDataToDev env CRLF)
       (and_then (writeDataToDev env
                    (formatQuotedPrintableIntoLines (encodeQuotedPrintable text) MaxLineSize))
                 (writeDataToDev env CRLF))) st)"

definition MimeHtml_writeToDev ::
  "'d QtEnv \<Rightarrow> MimePartData \<Rightarrow> QString \<Rightarrow> 'd io_state \<Rightarrow> bool \<times> 'd io_state" where
  "MimeHtml_writeToDev env part html st =
     (if html = [] then (False, st)
      else
        and_then (writeStdHeadersToDev env part [])
       (and_then (writeDataToDev env CRLF)
       (and_then (writeDataToDev env
                    (formatQuotedPrintableIntoLines (encodeQuotedPrintable html) MaxLineSize))
                 (writeDataToDev env CRLF))) st)"

text \<open>\<open>MimeFile::fileName\<close> is the content name of the part.\<close>

definition MimeFile_writeToDev ::
  "'d QtEnv \<Rightarrow> MimePartData \<Rightarrow> QByteArray \<Rightarrow> Disposition \<Rightarrow> 'd io_state
     \<Rightarrow> bool \<times> 'd io_state" where
  "MimeFile_writeToDev env part fileContent disposition st =
     (if contentName part = [] \<or> fileContent = [] then (False, st)
      else
        let dispositionVal =
              (if disposition = DisposeAsAttachment
               then ''Content-Disposition: attachment;'' @ CRLF @ ''  filename=\"''
                      @ contentName part @ ''\"'' @ CRLF
               else if disposition = DisposeInline
               then ''Content-Disposition: inline'' @ CRLF
               else [])
        in
        and_then (writeStdHeadersToDev env part [])
       (and_then (\<lambda>st1. if dispositionVal \<noteq> [] then writeDataToDev env dispositionVal st1
                         else (True, st1))
       (and_then (writeDataToDev env CRLF)
       (and_then (writeDataToDev env (formatDataIntoLines (toBase64 fileContent) MaxLineSize))
                 (writeDataToDev env CRLF)))) st)"

text \<open>
  The virtual \<open>writeToDev\<close>, with the loop of \<open>MimeMultiPartMixed::writeToDev\<close> over the
  parts.  The boundary is drawn before the headers are written.
\<close>

lemma size_hd_parts:
  "parts \<noteq> [] \<Longrightarrow> 2 * size (hd parts) < Suc (Suc (2 * size_list size parts))"
  by (cases parts) simp_all

function writeToDev :: "'d QtEnv \<Rightarrow> MimePart \<Rightarrow> 'd io_state \<Rightarrow> bool \<times> 'd io_state"
  and writeParts ::
    "'d QtEnv \<Rightarrow> QByteArray \<Rightarrow> MimePart list \<Rightarrow> 'd io_state \<Rightarrow> bool \<times> 'd io_state"
where
  "writeToDev env (MimeText part text) st = MimeText_writeToDev env part text st"
| "writeToDev env (MimeHtml part html) st = MimeHtml_writeToDev env part html st"
| "writeToDev env (MimeFile part fileContent disposition) st =
     MimeFile_writeToDev env part fileContent disposition st"
| "writeToDev env (MimeMultiPartMixed part parts) st =
     (if parts = [] then (False, st)
      else if size_of parts = 1 then writeToDev env (hd parts) st
      else
        let boundaryStr = toHex (createUuid env (uuid_calls st));
            st0 = st\<lparr>uuid_calls := Suc (uuid_calls st)\<rparr>;
            boundaryPrefix = ''--'' @ boundaryStr @ CRLF;
            boundarySuffix = ''--'' @ boundaryStr @ ''--'' @ CRLF
        in
        (case writeStdHeadersToDev env part boundaryStr st0 of
           (ok1, st1) \<Rightarrow> if \<not> ok1 then (False, st1) else
        (case writeDataToDev env CRLF st1 of
           (ok2, st2) \<Rightarrow> if \<not> ok2 then (False, st2) else
        (case writeParts env boundaryPrefix parts st2 of
           (ok3, st3) \<Rightarrow> if \<not> ok3 then (False, st3) else
        writeDataToDev env boundarySuffix st3))))"
| "writeParts env boundaryPrefix [] st = (True, st)"
| "writeParts env boundaryPrefix (part # rest) st =
     (case writeDataToDev env boundaryPrefix st of
        (ok1, st1) \<Rightarrow> if \<not> ok1 then (False, st1) else
     (case writeToDev env part st1 of
        (ok2, st2) \<Rightarrow> if \<not> ok2 then (False, st2) else
     writeParts env boundaryPrefix rest st2))"
  by pat_completeness auto
termination
  by (relation "measure (\<lambda>x. case x of
          Inl (env, p, st) \<Rightarrow> 2 * size p
        | Inr (env, b, ps, st) \<Rightarrow> 2 * size_list size ps + 1)")
     (auto simp: size_hd_parts)

section \<open>Addresses and messages (smtp\_mime.h, smtp\_mime.cpp)\<close>

record EmailAddress =
  d_email :: QString
  d_name :: QString

definition EmailAddress_isEmpty :: "EmailAddress \<Rightarrow> bool" where
  "EmailAddress_isEmpty a = (d_email a = [] \<and> d_name a = [])"

text \<open>
  \<open>RexPatterns::Email\<close>, \<open>^[A-Za-z0-9._%+-]+@[A-Za-z0-9.-]+\.[A-Za-z]+$\<close>, as
  \<open>QRegularExpression\<close> matches it: the local part is the longest run of its class and is
  followed by \<open>@\<close>; the last label is the run of letters at the end, after a dot; what
  stands between is not empty and of the domain class.  Without further options \<open>$\<close> also
  matches before a line feed that ends the subject.
\<close>

definition qchar_in :: "QChar \<Rightarrow> QByteArray \<Rightarrow> bool" where
  "qchar_in u cs = (unat u \<in> set (map of_char cs))"

definition rx_alpha :: "QChar \<Rightarrow> bool" where
  "rx_alpha u = ((65 \<le> unat u \<and> unat u \<le> 90) \<or> (97 \<le> unat u \<and> unat u \<le> 122))"

definition rx_digit :: "QChar \<Rightarrow> bool" where
  "rx_digit u = (48 \<le> unat u \<and> unat u \<le> 57)"

definition rx_local :: "QChar \<Rightarrow> bool" where
  "rx_local u = (rx_alpha u \<or> rx_digit u \<or> qchar_in u ''._%+-'')"

definition rx_domain :: "QChar \<Rightarrow> bool" where
  "rx_domain u = (rx_alpha u \<or> rx_digit u \<or> qchar_in u ''.-'')"

definition rx_email_upto_end :: "QString \<Rightarrow> bool" where
  "rx_email_upto_end s =
     (let local = takeWhile rx_local s;
          rest = dropWhile rx_local s
      in local \<noteq> [] \<and> rest \<noteq> [] \<and> qchar_in (hd rest) ''@'' \<and>
         (let dom = tl rest;
              tld = rev (takeWhile rx_alpha (rev dom));
              pre = take (length dom - length tld) dom
          in tld \<noteq> [] \<and> pre \<noteq> [] \<and> qchar_in (last pre) ''.'' \<and>
             butlast pre \<noteq> [] \<and> list_all rx_domain (butlast pre)))"

definition rx_email_hasMatch :: "QString \<Rightarrow> bool" where
  "rx_email_hasMatch s =
     (rx_email_upto_end s \<or> (s \<noteq> [] \<and> unat (last s) = 10 \<and> rx_email_upto_end (butlast s)))"

definition EmailAddress_isValid :: "EmailAddress \<Rightarrow> bool" where
  "EmailAddress_isValid a =
     (if EmailAddress_isEmpty a then False else rx_email_hasMatch (d_email a))"

definition encodeEmailAddress :: "EmailAddress \<Rightarrow> int \<Rightarrow> QByteArray" where
  "encodeEmailAddress a maxWordSize =
     (if \<not> EmailAddress_isValid a then []
      else
        (if d_name a \<noteq> [] then encodeMimeWordQ (d_name a) maxWordSize @ CRLF @ '' <'' else [])
        @ toLatin1 (d_email a)
        @ (if d_name a \<noteq> [] then ''>'' else []))"

text \<open>The loop of \<open>encodeEmailAddresses\<close>, with its index \<open>ix\<close>.\<close>

fun encodeEmailAddresses_loop :: "int \<Rightarrow> nat \<Rightarrow> EmailAddress list \<Rightarrow> QByteArray" where
  "encodeEmailAddresses_loop maxWordSize ix [] = []"
| "encodeEmailAddresses_loop maxWordSize ix (a # rest) =
     (if ix \<ge> 1 then '','' @ CRLF @ '' '' else [])
     @ encodeEmailAddress a maxWordSize
     @ encodeEmailAddresses_loop maxWordSize (ix + 1) rest"

definition encodeEmailAddresses :: "EmailAddress list \<Rightarrow> int \<Rightarrow> QByteArray" where
  "encodeEmailAddresses emails maxWordSize =
     (if emails = [] then []
      else if \<not> list_all EmailAddress_isValid emails then []
      else encodeEmailAddresses_loop maxWordSize 0 emails)"

text \<open>
  \<open>MimeMessage\<close>.  \<open>d_messageBody\<close> points to the part the message created for its body,
  which is also the first part of \<open>d_multiPart\<close>; no interface changes that part once it
  is created, so the member holds its value.  \<open>d_multiPart\<close> is the list of parts of the
  multipart, whose own header is never changed.
\<close>

record MimeMessage =
  d_senderAddress :: EmailAddress
  d_replyToAddress :: EmailAddress
  d_toAddresses :: "EmailAddress list"
  d_ccAddresses :: "EmailAddress list"
  d_messageSubject :: QString
  d_messageBody :: "MimePart option"
  d_multiPart :: "MimePart list"

definition newEmailAddress :: EmailAddress where
  "newEmailAddress = \<lparr>d_email = [], d_name = []\<rparr>"

definition newMimeMessage :: MimeMessage where
  "newMimeMessage =
     \<lparr>d_senderAddress = newEmailAddress, d_replyToAddress = newEmailAddress,
      d_toAddresses = [], d_ccAddresses = [], d_messageSubject = [],
      d_messageBody = None, d_multiPart = []\<rparr>"

definition setSenderAddress :: "EmailAddress \<Rightarrow> MimeMessage \<Rightarrow> MimeMessage" where
  "setSenderAddress sender m = m\<lparr>d_senderAddress := sender\<rparr>"

definition setReplyToAddress :: "EmailAddress \<Rightarrow> MimeMessage \<Rightarrow> MimeMessage" where
  "setReplyToAddress replyTo m = m\<lparr>d_replyToAddress := replyTo\<rparr>"

definition setToRecipients :: "EmailAddress list \<Rightarrow> MimeMessage \<Rightarrow> MimeMessage" where
  "setToRecipients to m = m\<lparr>d_toAddresses := to\<rparr>"

definition addToRecipient :: "EmailAddress \<Rightarrow> MimeMessage \<Rightarrow> MimeMessage" where
  "addToRecipient to m = m\<lparr>d_toAddresses := d_toAddresses m @ [to]\<rparr>"

definition setCcRecipients :: "EmailAddress list \<Rightarrow> MimeMessage \<Rightarrow> MimeMessage" where
  "setCcRecipients cc m = m\<lparr>d_ccAddresses := cc\<rparr>"

definition addCcRecipient :: "EmailAddress \<Rightarrow> MimeMessage \<Rightarrow> MimeMessage" where
  "addCcRecipient cc m = m\<lparr>d_ccAddresses := d_ccAddresses m @ [cc]\<rparr>"

definition setMessageSubject :: "QString \<Rightarrow> MimeMessage \<Rightarrow> MimeMessage" where
  "setMessageSubject text m = m\<lparr>d_messageSubject := text\<rparr>"

text \<open>\<open>dropFirst\<close> is called only when a body exists, which is then the first part.\<close>

definition dropBody :: "MimeMessage \<Rightarrow> MimeMessage" where
  "dropBody m =
     (if d_messageBody m \<noteq> None
      then m\<lparr>d_multiPart := tl (d_multiPart m), d_messageBody := None\<rparr>
      else m)"

definition setMessageBodyText :: "QString \<Rightarrow> MimeMessage \<Rightarrow> MimeMessage" where
  "setMessageBodyText text m =
     (let m1 = dropBody m in
      if text \<noteq> []
      then m1\<lparr>d_messageBody := Some (newMimeText text),
              d_multiPart := newMimeText text # d_multiPart m1\<rparr>
      else m1)"

definition setMessageBodyHtml :: "QString \<Rightarrow> MimeMessage \<Rightarrow> MimeMessage" where
  "setMessageBodyHtml html m =
     (let m1 = dropBody m in
      if html \<noteq> []
      then m1\<lparr>d_messageBody := Some (newMimeHtml html),
              d_multiPart := newMimeHtml html # d_multiPart m1\<rparr>
      else m1)"

definition messageBodyText :: "MimeMessage \<Rightarrow> QString" where
  "messageBodyText m = (case d_messageBody m of Some (MimeText part text) \<Rightarrow> text | _ \<Rightarrow> [])"

definition messageBodyHtml :: "MimeMessage \<Rightarrow> QString" where
  "messageBodyHtml m = (case d_messageBody m of Some (MimeHtml part html) \<Rightarrow> html | _ \<Rightarrow> [])"

definition addMimePart :: "MimePart \<Rightarrow> MimeMessage \<Rightarrow> MimeMessage" where
  "addMimePart part m = m\<lparr>d_multiPart := d_multiPart m @ [part]\<rparr>"

definition MimeMessage_isValid :: "MimeMessage \<Rightarrow> bool" where
  "MimeMessage_isValid m =
     (if \<not> EmailAddress_isValid (d_senderAddress m) then False
      else if \<not> EmailAddress_isEmpty (d_replyToAddress m)
              \<and> \<not> EmailAddress_isValid (d_replyToAddress m) then False
      else if d_toAddresses m = [] then False
      else if \<not> list_all EmailAddress_isValid (d_toAddresses m) then False
      else if \<not> list_all EmailAddress_isValid (d_ccAddresses m) then False
      else if d_messageSubject m = [] then False
      else if messageBodyText m = [] \<and> messageBodyHtml m = [] then False
      else True)"

definition MimeMessage_header :: "'d QtEnv \<Rightarrow> MimeMessage \<Rightarrow> QByteArray" where
  "MimeMessage_header env m =
     ''MIME-Version: 1.0'' @ CRLF
     @ ''Date: '' @ toLatin1 (currentDateTime env) @ CRLF
     @ (if \<not> EmailAddress_isEmpty (d_senderAddress m)
        then ''From: '' @ encodeEmailAddress (d_senderAddress m) MaxMimeWordSize @ CRLF else [])
     @ (if \<not> EmailAddress_isEmpty (d_replyToAddress m)
        then ''Reply-To: '' @ encodeEmailAddress (d_replyToAddress m) MaxMimeWordSize @ CRLF
        else [])
     @ (if d_toAddresses m \<noteq> []
        then ''To: '' @ encodeEmailAddresses (d_toAddresses m) MaxMimeWordSize @ CRLF else [])
     @ (if d_ccAddresses m \<noteq> []
        then ''Cc: '' @ encodeEmailAddresses (d_ccAddresses m) MaxMimeWordSize @ CRLF else [])
     @ (if d_messageSubject m \<noteq> []
        then ''Subject: '' @ encodeMimeWordQ (d_messageSubject m) MaxMimeWordSize @ CRLF
        else [])"

definition MimeMessage_writeToDev ::
  "'d QtEnv \<Rightarrow> MimeMessage \<Rightarrow> 'd io_state \<Rightarrow> bool \<times> 'd io_state" where
  "MimeMessage_writeToDev env m st =
     (if \<not> MimeMessage_isValid m then (False, st)
      else
        and_then (writeDataToDev env (MimeMessage_header env m))
       (and_then (writeToDev env (newMimeMultiPartMixed (d_multiPart m)))
                 (writeDataToDev env (CRLF @ ''.'' @ CRLF))) st)"

section \<open>The log handler (rtloghandler.h, rtloghandler.cpp)\<close>

text \<open>
  \<open>QString::replace(pat, rep)\<close>: every occurrence of \<open>pat\<close>, found from left to
  right and not overlapping, is replaced by \<open>rep\<close>; the scan goes on behind the
  occurrence it replaced.  With an empty \<open>pat\<close> Qt inserts \<open>rep\<close> in front of every
  character and at the end.
\<close>

function replace_loop :: "QString \<Rightarrow> QString \<Rightarrow> QString \<Rightarrow> QString" where
  "replace_loop pat rep [] = []"
| "replace_loop pat rep (c # cs) =
     (if pat \<noteq> [] \<and> take (length pat) (c # cs) = pat
      then rep @ replace_loop pat rep (drop (length pat) (c # cs))
      else c # replace_loop pat rep cs)"
  by pat_completeness auto
termination
  by (relation "measure (\<lambda>(b, a, s). length s)") auto

definition QString_replace :: "QString \<Rightarrow> QString \<Rightarrow> QString \<Rightarrow> QString" where
  "QString_replace pat rep s =
     (if pat = [] then rep @ concat (map (\<lambda>c. c # rep) s)
      else replace_loop pat rep s)"

text \<open>\<open>QString::number\<close> of an \<open>int\<close>: its decimal digits, with the sign.\<close>

fun decimal_digits :: "nat \<Rightarrow> QByteArray" where
  "decimal_digits n =
     (if n < 10 then [char_of (48 + n)]
      else decimal_digits (n div 10) @ [char_of (48 + n mod 10)])"

definition QString_number :: "int \<Rightarrow> QString" where
  "QString_number i =
     fromLatin1 (if i < 0 then ''-'' @ decimal_digits (nat (- i)) else decimal_digits (nat i))"

datatype LogType = Debug | Warning | Critical | Fatal

record CallContext =
  ctx_file :: QByteArray
  ctx_line :: int
  ctx_fnc :: QByteArray

text \<open>The members of \<open>RTLogHandler\<close>; \<open>index\<close> starts at 0.\<close>

record RTLogHandler =
  log_context :: CallContext
  log_type :: LogType
  msg :: QString
  index :: int

definition newRTLogHandler :: "CallContext \<Rightarrow> LogType \<Rightarrow> QString \<Rightarrow> RTLogHandler" where
  "newRTLogHandler ctx type m = \<lparr>log_context = ctx, log_type = type, msg = m, index = 0\<rparr>"

text \<open>\<open>operator%(const QString&)\<close>: \<open>++index\<close>, then the replacement of \<open>%index\<close>.\<close>

definition operator_percent :: "RTLogHandler \<Rightarrow> QString \<Rightarrow> RTLogHandler" where
  "operator_percent h arg =
     (let index1 = index h + 1
      in h\<lparr>msg := QString_replace (fromLatin1 ''%'' @ QString_number index1) arg (msg h),
            index := index1\<rparr>)"

text \<open>\<open>operator%(const char *)\<close>: the same replacement, the argument converted to a
  \<open>QString\<close> (\<open>QString::fromUtf8\<close>, the parameter \<open>decode\<close>).\<close>

definition operator_percent_cstr ::
  "(QByteArray \<Rightarrow> QString) \<Rightarrow> RTLogHandler \<Rightarrow> QByteArray \<Rightarrow> RTLogHandler" where
  "operator_percent_cstr decode h arg =
     (let index1 = index h + 1
      in h\<lparr>msg := QString_replace (fromLatin1 ''%'' @ QString_number index1) (decode arg)
                     (msg h),
            index := index1\<rparr>)"

text \<open>A chain \<open>handler % a1 % a2 ...\<close>.\<close>

definition percent_chain :: "RTLogHandler \<Rightarrow> QString list \<Rightarrow> RTLogHandler" where
  "percent_chain h args = foldl operator_percent h args"

section \<open>The socket\<close>

text \<open>
  A \<open>QTcpSocket\<close> (or \<open>QSslSocket\<close>) as the driver sees it: whether it is open, the bytes
  received and not yet read, and what was written.  Each write is kept with a flag:
  whether a whole line stood in the read buffer at that moment.  The peer is the finite
  script \<open>waits\<close> of what the blocking waits still to come will meet, a time-out or the
  bytes that arrive; after the script every wait times out.
\<close>

datatype PeerVerifyMode = VerifyNone | QueryPeer | VerifyPeer | AutoVerifyPeer

datatype wait_outcome = TimedOut | Ready QByteArray

record QTcpSocket =
  is_ssl_socket :: bool
  peer_verify_mode :: PeerVerifyMode
  ignore_ssl_errors :: bool
  is_open :: bool
  read_buffer :: QByteArray
  wire :: "(bool \<times> QByteArray) list"
  waits :: "wait_outcome list"
  error_string :: QString

definition newQTcpSocket :: "wait_outcome list \<Rightarrow> QTcpSocket" where
  "newQTcpSocket script =
     \<lparr>is_ssl_socket = False, peer_verify_mode = AutoVerifyPeer, ignore_ssl_errors = False,
      is_open = False, read_buffer = [], wire = [], waits = script, error_string = []\<rparr>"

definition newQSslSocket :: "wait_outcome list \<Rightarrow> QTcpSocket" where
  "newQSslSocket script = (newQTcpSocket script)\<lparr>is_ssl_socket := True\<rparr>"

definition canReadLine :: "QTcpSocket \<Rightarrow> bool" where
  "canReadLine s = (CHR 0x0A \<in> set (read_buffer s))"

text \<open>\<open>readLine\<close>: the bytes up to the first line feed, the line feed included.\<close>

definition readLine :: "QTcpSocket \<Rightarrow> QByteArray \<times> QTcpSocket" where
  "readLine s =
     (let line = takeWhile (\<lambda>c. c \<noteq> CHR 0x0A) (read_buffer s);
          rest = drop (length line) (read_buffer s)
      in (line @ take 1 rest, s\<lparr>read_buffer := drop 1 rest\<rparr>))"

definition socket_write :: "QByteArray \<Rightarrow> QTcpSocket \<Rightarrow> QTcpSocket" where
  "socket_write data s = s\<lparr>wire := wire s @ [(canReadLine s, data)]\<rparr>"

definition socket_close :: "QTcpSocket \<Rightarrow> QTcpSocket" where
  "socket_close s = s\<lparr>is_open := False, read_buffer := []\<rparr>"

definition next_wait :: "QTcpSocket \<Rightarrow> wait_outcome \<times> QTcpSocket" where
  "next_wait s = (case waits s of [] \<Rightarrow> (TimedOut, s) | x # xs \<Rightarrow> (x, s\<lparr>waits := xs\<rparr>))"

definition waitForReadyRead :: "QTcpSocket \<Rightarrow> bool \<times> QTcpSocket" where
  "waitForReadyRead s =
     (if \<not> is_open s then (False, s)
      else (case next_wait s of
              (Ready bytes, s1) \<Rightarrow> (True, s1\<lparr>read_buffer := read_buffer s1 @ bytes\<rparr>)
            | (TimedOut, s1) \<Rightarrow> (False, s1)))"

text \<open>\<open>connectToHost\<close> (or \<open>connectToHostEncrypted\<close>) and \<open>waitForConnected\<close>.\<close>

definition waitForConnected :: "QTcpSocket \<Rightarrow> bool \<times> QTcpSocket" where
  "waitForConnected s =
     (case next_wait s of
        (Ready bytes, s1) \<Rightarrow> (True, s1\<lparr>is_open := True, read_buffer := []\<rparr>)
      | (TimedOut, s1) \<Rightarrow> (False, s1))"

text \<open>\<open>startClientEncryption\<close> and \<open>waitForEncrypted\<close>.\<close>

definition waitForEncrypted :: "QTcpSocket \<Rightarrow> bool \<times> QTcpSocket" where
  "waitForEncrypted s =
     (case next_wait s of (Ready bytes, s1) \<Rightarrow> (True, s1) | (TimedOut, s1) \<Rightarrow> (False, s1))"

text \<open>\<open>QByteArray::trimmed\<close>: without the white space at both ends.\<close>

definition is_space :: "char \<Rightarrow> bool" where
  "is_space c = (c \<in> set [CHR 0x09, CHR 0x0A, CHR 0x0B, CHR 0x0C, CHR 0x0D, CHR 0x20])"

definition trimmed :: "QByteArray \<Rightarrow> QByteArray" where
  "trimmed bs = rev (dropWhile is_space (rev (dropWhile is_space bs)))"

text \<open>\<open>QString::arg\<close> on the templates of the driver, whose markers are \<open>%1\<close> and \<open>%2\<close>,
  once each: one pass that puts the arguments in.\<close>

fun QString_arg :: "QString \<Rightarrow> QString \<Rightarrow> QString \<Rightarrow> QString" where
  "QString_arg [] a1 a2 = []"
| "QString_arg [c] a1 a2 = [c]"
| "QString_arg (c # d # rest) a1 a2 =
     (if unat c = 37 \<and> unat d = 49 then a1 @ QString_arg rest a1 a2
      else if unat c = 37 \<and> unat d = 50 then a2 @ QString_arg rest a1 a2
      else c # QString_arg (d # rest) a1 a2)"

section \<open>The SMTP client (smtp\_client.h, smtp\_client.cpp)\<close>

datatype Status = ST_Disconnected | ST_Connected

datatype AuthMethod = AuthNone | AuthPlain | AuthLogin | AuthCramMd5

datatype ConnectionType = UnknownConnection | TcpConnection | SslConnection | TlsConnection

record PrivateData =
  status :: Status
  serverHost :: QString
  serverPort :: "16 word"
  clientHost :: QString
  connectionType :: ConnectionType
  accountUsername :: QString
  accountPassword :: QString
  authMethod :: AuthMethod
  connectionTimout :: int
  responseTimeout :: int
  sendTimeout :: int
  socket :: "QTcpSocket option"
  logSocketTraffic :: bool

text \<open>The defaults of \<open>PrivateData\<close>; the client host is the local host name.\<close>

definition newPrivateData :: "QString \<Rightarrow> PrivateData" where
  "newPrivateData localHostName =
     \<lparr>status = ST_Disconnected, serverHost = [], serverPort = 0, clientHost = localHostName,
      connectionType = UnknownConnection, accountUsername = [], accountPassword = [],
      authMethod = AuthNone, connectionTimout = 15000, responseTimeout = 15000,
      sendTimeout = 60000, socket = None, logSocketTraffic = False\<rparr>"

text \<open>
  The process the client runs in: the members of the client, the log (the type and the
  message of every record written; the call context is left out) and the number of
  UUIDs drawn so far.
\<close>

record Process = PrivateData +
  log_sink :: "(LogType \<times> QString) list"
  uuids_drawn :: nat

text \<open>The library functions the driver calls and the model takes as given.\<close>

record SmtpEnv =
  fromUtf8 :: "QByteArray \<Rightarrow> QString"
  fromBase64 :: "QByteArray \<Rightarrow> QByteArray"
  hmac_md5 :: "QByteArray \<Rightarrow> QByteArray \<Rightarrow> QByteArray"
  uuid_source :: "nat \<Rightarrow> QByteArray"
  clock :: QString

subsection \<open>Setters\<close>

definition setServerHost :: "QString \<Rightarrow> 'a PrivateData_scheme \<Rightarrow> 'a PrivateData_scheme" where
  "setServerHost host d = (if status d \<noteq> ST_Disconnected then d else d\<lparr>serverHost := host\<rparr>)"

definition setServerPort :: "16 word \<Rightarrow> 'a PrivateData_scheme \<Rightarrow> 'a PrivateData_scheme" where
  "setServerPort port d = (if status d \<noteq> ST_Disconnected then d else d\<lparr>serverPort := port\<rparr>)"

definition setClientHost :: "QString \<Rightarrow> 'a PrivateData_scheme \<Rightarrow> 'a PrivateData_scheme" where
  "setClientHost host d = (if status d \<noteq> ST_Disconnected then d else d\<lparr>clientHost := host\<rparr>)"

definition setAccountUser :: "QString \<Rightarrow> 'a PrivateData_scheme \<Rightarrow> 'a PrivateData_scheme" where
  "setAccountUser user d =
     (if status d \<noteq> ST_Disconnected then d
      else
        let d1 = d\<lparr>accountUsername := user\<rparr>
        in if authMethod d1 = AuthNone then d1\<lparr>authMethod := AuthPlain\<rparr> else d1)"

definition setAccountPassword ::
  "QString \<Rightarrow> 'a PrivateData_scheme \<Rightarrow> 'a PrivateData_scheme" where
  "setAccountPassword password d =
     (if status d \<noteq> ST_Disconnected then d
      else
        let d1 = d\<lparr>accountPassword := password\<rparr>
        in if authMethod d1 = AuthNone then d1\<lparr>authMethod := AuthPlain\<rparr> else d1)"

definition setAuthMethod :: "AuthMethod \<Rightarrow> 'a PrivateData_scheme \<Rightarrow> 'a PrivateData_scheme" where
  "setAuthMethod method d =
     (if status d \<noteq> ST_Disconnected then d else d\<lparr>authMethod := method\<rparr>)"

definition setConnectionTimeout :: "int \<Rightarrow> 'a PrivateData_scheme \<Rightarrow> 'a PrivateData_scheme" where
  "setConnectionTimeout msec d =
     (if status d \<noteq> ST_Disconnected then d else d\<lparr>connectionTimout := msec\<rparr>)"

definition setResponseTimeout :: "int \<Rightarrow> 'a PrivateData_scheme \<Rightarrow> 'a PrivateData_scheme" where
  "setResponseTimeout msec d =
     (if status d \<noteq> ST_Disconnected then d else d\<lparr>responseTimeout := msec\<rparr>)"

definition setSendTimeout :: "int \<Rightarrow> 'a PrivateData_scheme \<Rightarrow> 'a PrivateData_scheme" where
  "setSendTimeout msec d =
     (if status d \<noteq> ST_Disconnected then d else d\<lparr>sendTimeout := msec\<rparr>)"

definition setSocketTrafficLogEnabled ::
  "bool \<Rightarrow> 'a PrivateData_scheme \<Rightarrow> 'a PrivateData_scheme" where
  "setSocketTrafficLogEnabled on d = d\<lparr>logSocketTraffic := on\<rparr>"

subsection \<open>The helpers of the driver\<close>

text \<open>
  A step of the driver runs in the process and returns a value; it has no result
  (\<open>None\<close>) where the source dereferences the null socket pointer or aborts.
\<close>

type_synonym 'a run = "Process \<Rightarrow> ('a \<times> Process) option"

text \<open>\<open>pn_fail\<close>: the handler built for the warning writes its record when it is
  destroyed.\<close>

definition pn_fail :: "QString \<Rightarrow> Process \<Rightarrow> bool \<times> Process" where
  "pn_fail err w = (False, w\<lparr>log_sink := log_sink w @ [(Warning, err)]\<rparr>)"

definition pn_closeAndFail :: "bool run" where
  "pn_closeAndFail w =
     (case socket w of
        None \<Rightarrow> None
      | Some s \<Rightarrow> Some (False, w\<lparr>status := ST_Disconnected, socket := Some (socket_close s)\<rparr>))"

text \<open>\<open>pn_logTraffic\<close>: \<open>RT_DEBUG("log-traffic > %1: %2") % who % msg\<close>, the byte arrays
  converted to strings.\<close>

definition pn_logTraffic :: "SmtpEnv \<Rightarrow> QByteArray \<Rightarrow> QByteArray \<Rightarrow> Process \<Rightarrow> Process" where
  "pn_logTraffic env who data w =
     (if \<not> logSocketTraffic w then w
      else
        let h = percent_chain
                  (newRTLogHandler
                     \<lparr>ctx_file = ''smtp_client.cpp'', ctx_line = 70, ctx_fnc = ''pn_logTraffic''\<rparr>
                     Debug (fromLatin1 ''log-traffic > %1: %2''))
                  [fromUtf8 env who, fromUtf8 env data]
        in w\<lparr>log_sink := log_sink w @ [(log_type h, msg h)]\<rparr>)"

lemma readLine_shrinks:
  "canReadLine s \<Longrightarrow> length (read_buffer (snd (readLine s))) < length (read_buffer s)"
  by (cases "read_buffer s") (auto simp: canReadLine_def readLine_def Let_def)

lemma socket_pn_fail: "socket (snd (pn_fail err w)) = socket w"
  by (simp add: pn_fail_def)

lemma socket_pn_logTraffic: "socket (pn_logTraffic env who data w) = socket w"
  by (simp add: pn_logTraffic_def Let_def)

text \<open>The inner loop of \<open>pn_isAllowedToSend\<close>: every line that can be read is read and
  logged.\<close>

function pn_isAllowedToSend_loop :: "SmtpEnv \<Rightarrow> Process \<Rightarrow> Process option" where
  "pn_isAllowedToSend_loop env w =
     (case socket w of
        None \<Rightarrow> None
      | Some s \<Rightarrow>
          if canReadLine s then
            (case readLine s of
               (line, s1) \<Rightarrow>
                 pn_isAllowedToSend_loop env
                   (snd (pn_fail (QString_arg (fromLatin1 '' > msg-line: %1'')
                                    (fromUtf8 env line) [])
                           (w\<lparr>socket := Some s1\<rparr>))))
          else Some w)"
  by pat_completeness auto
termination
proof (relation "measure (\<lambda>(env, w). case socket w of None \<Rightarrow> 0
                                          | Some s \<Rightarrow> length (read_buffer s))")
  show "wf (measure (\<lambda>(env, w). case socket w of None \<Rightarrow> 0
                                          | Some s \<Rightarrow> length (read_buffer s)))"
    by simp
next
  fix env :: SmtpEnv and w :: Process and s line s1
  assume "socket w = Some s" "canReadLine s" "(line, s1) = readLine s"
  then show "((env, snd (pn_fail (QString_arg (fromLatin1 '' > msg-line: %1'')
                                    (fromUtf8 env line) [])
                           (w\<lparr>socket := Some s1\<rparr>))), env, w)
      \<in> measure (\<lambda>(env, w). case socket w of None \<Rightarrow> 0
                                          | Some s \<Rightarrow> length (read_buffer s))"
    using readLine_shrinks [of s] by (simp add: socket_pn_fail) (metis snd_conv)
qed

definition pn_isAllowedToSend :: "SmtpEnv \<Rightarrow> bool run" where
  "pn_isAllowedToSend env w =
     (case socket w of
        None \<Rightarrow> None
      | Some s \<Rightarrow>
          if canReadLine s then
            (case pn_isAllowedToSend_loop env
                    (snd (pn_fail (fromLatin1
                       ''send fail, found unexpected data available to be read, was:'') w)) of
               None \<Rightarrow> None
             | Some w1 \<Rightarrow> Some (False, w1))
          else Some (True, w))"

text \<open>\<open>pn_sendMessage(d, data)\<close>: the data and CRLF are written.\<close>

definition pn_sendMessage_data :: "SmtpEnv \<Rightarrow> QByteArray \<Rightarrow> bool run" where
  "pn_sendMessage_data env data w =
     (case pn_isAllowedToSend env w of
        None \<Rightarrow> None
      | Some (allowed, w1) \<Rightarrow>
          if \<not> allowed then Some (False, w1)
          else
            let w2 = pn_logTraffic env ''C'' data w1
            in (case socket w2 of
                  None \<Rightarrow> None
                | Some s \<Rightarrow> Some (True, w2\<lparr>socket := Some (socket_write (data @ CRLF) s)\<rparr>)))"

text \<open>\<open>pn_sendMessage(d, msg)\<close>: the message is written to a \<open>QBuffer\<close>, and the buffer
  to the socket.\<close>

definition buffer_env :: "SmtpEnv \<Rightarrow> QByteArray QtEnv" where
  "buffer_env env =
     \<lparr>dev_write = buffer_write, createUuid = uuid_source env, currentDateTime = clock env\<rparr>"

definition pn_sendMessage_msg :: "SmtpEnv \<Rightarrow> MimeMessage \<Rightarrow> bool run" where
  "pn_sendMessage_msg env m w =
     (case pn_isAllowedToSend env w of
        None \<Rightarrow> None
      | Some (allowed, w1) \<Rightarrow>
          if \<not> allowed then Some (False, w1)
          else
            (case MimeMessage_writeToDev (buffer_env env) m
                    \<lparr>device = [], uuid_calls = uuids_drawn w1\<rparr> of
               (written, st) \<Rightarrow>
                 let w2 = w1\<lparr>uuids_drawn := uuid_calls st\<rparr>
                 in if \<not> written then Some (False, w2)
                    else
                      let dataToSend = device st;
                          w3 = pn_logTraffic env ''C'' (toBase64 dataToSend) w2
                      in (case socket w3 of
                            None \<Rightarrow> None
                          | Some s \<Rightarrow>
                              Some (True, w3\<lparr>socket := Some (socket_write dataToSend s)\<rparr>))))"

text \<open>
  \<open>pn_waitForResponse\<close>.  The inner loop reads the lines that can be read: it returns at
  the first line whose fourth byte is a space, with the comparison of its code and the
  rest of the line, or falls through when no line is left.
\<close>

datatype lines_exit = Returned bool QByteArray | NoLineLeft

function pn_waitForResponse_lines :: "SmtpEnv \<Rightarrow> QByteArray \<Rightarrow> lines_exit run" where
  "pn_waitForResponse_lines env expectedCode w =
     (case socket w of
        None \<Rightarrow> None
      | Some s \<Rightarrow>
          if canReadLine s then
            (case readLine s of
               (raw, s1) \<Rightarrow>
                 let line = trimmed raw;
                     w1 = pn_logTraffic env ''S'' line (w\<lparr>socket := Some s1\<rparr>);
                     code = take 3 line;
                     codeToMsgSep = mid line 3 1
                 in if codeToMsgSep = '' '' then
                      (if code \<noteq> expectedCode
                       then Some (Returned False [],
                              snd (pn_fail (QString_arg
                                     (fromLatin1 ''invalid response, expected %1, received: %2'')
                                     (fromUtf8 env expectedCode) (fromUtf8 env line)) w1))
                       else Some (Returned True (mid line 4 (length line)), w1))
                    else pn_waitForResponse_lines env expectedCode w1)
          else Some (NoLineLeft, w))"
  by pat_completeness auto
termination
proof (relation "measure (\<lambda>(env, c, w). case socket w of None \<Rightarrow> 0
                                          | Some s \<Rightarrow> length (read_buffer s))")
  show "wf (measure (\<lambda>(env, c, w). case socket w of None \<Rightarrow> 0
                                          | Some s \<Rightarrow> length (read_buffer s)))"
    by simp
next
  fix env :: SmtpEnv and expectedCode :: QByteArray and w :: Process and s raw s1 line w1
  assume "socket w = Some s" "canReadLine s" "(raw, s1) = readLine s"
    and "w1 = pn_logTraffic env ''S'' line (w\<lparr>socket := Some s1\<rparr>)"
  then show "((env, expectedCode, w1), env, expectedCode, w)
      \<in> measure (\<lambda>(env, c, w). case socket w of None \<Rightarrow> 0
                                          | Some s \<Rightarrow> length (read_buffer s))"
    using readLine_shrinks [of s] by (simp add: socket_pn_logTraffic) (metis snd_conv)
qed

declare pn_isAllowedToSend_loop.simps [simp del]
declare pn_waitForResponse_lines.simps [simp del]

text \<open>The waits left to the socket of the process: the measure of the outer loop.\<close>

definition waits_left :: "Process \<Rightarrow> nat" where
  "waits_left w = (case socket w of None \<Rightarrow> 0 | Some s \<Rightarrow> length (waits s))"

lemma waits_left_pn_fail: "waits_left (snd (pn_fail err w)) = waits_left w"
  by (simp add: waits_left_def pn_fail_def)

lemma waits_left_pn_logTraffic: "waits_left (pn_logTraffic env who data w) = waits_left w"
  by (simp add: waits_left_def socket_pn_logTraffic)

lemma waits_readLine: "waits (snd (readLine s)) = waits s"
  by (simp add: readLine_def Let_def)

lemma waits_left_lines:
  "pn_waitForResponse_lines env expectedCode w = Some (r, w') \<Longrightarrow> waits_left w' = waits_left w"
proof (induction env expectedCode w rule: pn_waitForResponse_lines.induct)
  case (1 env expectedCode w)
  show ?case
  proof (cases "socket w")
    case None
    with "1.prems" show ?thesis by (simp add: pn_waitForResponse_lines.simps [of env expectedCode w])
  next
    case (Some s)
    show ?thesis
    proof (cases "canReadLine s")
      case False
      with Some "1.prems" show ?thesis
        by (simp add: pn_waitForResponse_lines.simps [of env expectedCode w])
    next
      case True
      obtain raw s1 where rl: "readLine s = (raw, s1)" by fastforce
      let ?line = "trimmed raw"
      let ?w1 = "pn_logTraffic env ''S'' ?line (w\<lparr>socket := Some s1\<rparr>)"
      have w1: "waits_left ?w1 = waits_left w"
        using waits_readLine [of s] rl Some
        by (simp add: waits_left_pn_logTraffic) (simp add: waits_left_def)
      show ?thesis
      proof (cases "mid ?line 3 1 = '' ''")
        case True
        with Some \<open>canReadLine s\<close> rl "1.prems" w1 show ?thesis
          by (auto simp: pn_waitForResponse_lines.simps [of env expectedCode w] Let_def
              waits_left_pn_fail split: if_splits)
      next
        case False
        with Some \<open>canReadLine s\<close> rl "1.prems"
        have "pn_waitForResponse_lines env expectedCode ?w1 = Some (r, w')"
          by (simp add: pn_waitForResponse_lines.simps [of env expectedCode w] Let_def)
        from "1.IH" [OF Some \<open>canReadLine s\<close> rl [symmetric] refl refl refl refl False this] w1
        show ?thesis by simp
      qed
    qed
  qed
qed

lemma waitForReadyRead_consumes:
  "waitForReadyRead s = (True, s1) \<Longrightarrow> length (waits s1) < length (waits s)"
  by (auto simp: waitForReadyRead_def next_wait_def split: if_splits list.splits wait_outcome.splits)

text \<open>The \<open>while (true)\<close> of \<open>pn_waitForResponse\<close>: the value is the result and the
  message body received.\<close>

function pn_waitForResponse_loop :: "SmtpEnv \<Rightarrow> QByteArray \<Rightarrow> (bool \<times> QByteArray) run" where
  "pn_waitForResponse_loop env expectedCode w =
     (case socket w of
        None \<Rightarrow> None
      | Some s \<Rightarrow>
          (case waitForReadyRead s of
             (ready, s1) \<Rightarrow>
               if \<not> ready then
                 Some ((False, []),
                   snd (pn_fail (fromLatin1
                      ''unable to wait for server response, connection timout'')
                      (w\<lparr>socket := Some s1\<rparr>)))
               else
                 (case pn_waitForResponse_lines env expectedCode (w\<lparr>socket := Some s1\<rparr>) of
                    None \<Rightarrow> None
                  | Some (Returned ok body, w1) \<Rightarrow> Some ((ok, body), w1)
                  | Some (NoLineLeft, w1) \<Rightarrow> pn_waitForResponse_loop env expectedCode w1)))"
  by pat_completeness auto
termination
proof (relation "measure (\<lambda>(env, c, w). waits_left w)", goal_cases)
  case 1
  show ?case by simp
next
  case (2 env expectedCode w s ready s1 r exit w1)
  from 2 have "length (waits s1) < length (waits s)"
    using waitForReadyRead_consumes [of s s1] by (cases ready) simp_all
  moreover from 2 have "waits_left w1 = waits_left (w\<lparr>socket := Some s1\<rparr>)"
    using waits_left_lines [of env expectedCode "w\<lparr>socket := Some s1\<rparr>" NoLineLeft w1]
    by simp
  ultimately show ?case using 2 by (simp add: waits_left_def)
qed

declare pn_waitForResponse_loop.simps [simp del]

definition pn_waitForResponse :: "SmtpEnv \<Rightarrow> QByteArray \<Rightarrow> (bool \<times> QByteArray) run" where
  "pn_waitForResponse env expectedCode w = pn_waitForResponse_loop env expectedCode w"

text \<open>The overload that ignores the message body.\<close>

definition pn_waitForResponse_code :: "SmtpEnv \<Rightarrow> QByteArray \<Rightarrow> bool run" where
  "pn_waitForResponse_code env expectedCode w =
     (case pn_waitForResponse env expectedCode w of
        None \<Rightarrow> None
      | Some ((ok, ignoredMsgBody), w1) \<Rightarrow> Some (ok, w1))"

definition pn_sendAndWaitFor :: "SmtpEnv \<Rightarrow> QByteArray \<Rightarrow> QByteArray \<Rightarrow> bool run" where
  "pn_sendAndWaitFor env dataToSend expectedResCode w =
     (case pn_sendMessage_data env dataToSend w of
        None \<Rightarrow> None
      | Some (sent, w1) \<Rightarrow>
          if \<not> sent then Some (False, w1)
          else pn_waitForResponse_code env expectedResCode w1)"

subsection \<open>The public operations\<close>

text \<open>\<open>if (!step) return on_failure; rest\<close>.\<close>

definition unless_ok :: "bool run \<Rightarrow> bool run \<Rightarrow> bool run \<Rightarrow> bool run" where
  "unless_ok step on_failure rest w =
     (case step w of
        None \<Rightarrow> None
      | Some (ok, w1) \<Rightarrow> if \<not> ok then on_failure w1 else rest w1)"

text \<open>
  \<open>setConnectionType\<close>: a failed \<open>RT_CHECK\<close> writes a fatal record and aborts the process.
  The script is what the peer of the new socket will do.
\<close>

definition setConnectionType ::
  "ConnectionType \<Rightarrow> wait_outcome list \<Rightarrow> Process \<Rightarrow> Process option" where
  "setConnectionType ctype script w =
     (if socket w \<noteq> None then None
      else if ctype = UnknownConnection then None
      else
        let w1 = w\<lparr>connectionType := ctype\<rparr>
        in if ctype = TcpConnection then Some (w1\<lparr>socket := Some (newQTcpSocket script)\<rparr>)
           else if ctype = SslConnection \<or> ctype = TlsConnection
           then Some (w1\<lparr>socket := Some (newQSslSocket script)\<rparr>)
           else Some w1)"

definition setConnectionType_verify ::
  "ConnectionType \<Rightarrow> PeerVerifyMode \<Rightarrow> bool \<Rightarrow> wait_outcome list \<Rightarrow> Process
     \<Rightarrow> Process option" where
  "setConnectionType_verify ctype vmode ignoreSslErrors script w =
     (if socket w \<noteq> None then None
      else if ctype = UnknownConnection then None
      else
        let w1 = w\<lparr>connectionType := ctype\<rparr>
        in if ctype = TcpConnection then Some (w1\<lparr>socket := Some (newQTcpSocket script)\<rparr>)
           else if ctype = SslConnection \<or> ctype = TlsConnection
           then Some (w1\<lparr>socket :=
                        Some ((newQSslSocket script)
                                \<lparr>peer_verify_mode := vmode,
                                 ignore_ssl_errors := ignoreSslErrors\<rparr>)\<rparr>)
           else Some w1)"

text \<open>The upgrade of a \<open>TlsConnection\<close> and the authentication, each followed by the
  rest of \<open>connectToServer\<close>.\<close>

definition starttls_phase :: "SmtpEnv \<Rightarrow> bool run \<Rightarrow> bool run" where
  "starttls_phase env rest w =
     (if connectionType w = TlsConnection then
        unless_ok (pn_sendAndWaitFor env ''STARTTLS'' ''220'') pn_closeAndFail
          (\<lambda>w1. case socket w1 of
                   None \<Rightarrow> None
                 | Some s \<Rightarrow>
                     (case waitForEncrypted s of
                        (encrypted, s1) \<Rightarrow>
                          if \<not> encrypted then
                            pn_closeAndFail
                              (snd (pn_fail
                                 (QString_arg
                                    (fromLatin1 ''unable to upgrade to encrypted mode, error: %1'')
                                    (error_string s1) [])
                                 (w1\<lparr>socket := Some s1\<rparr>)))
                          else
                            unless_ok
                              (pn_sendAndWaitFor env (''EHLO '' @ toLatin1 (clientHost w1)) ''250'')
                              pn_closeAndFail rest (w1\<lparr>socket := Some s1\<rparr>)))
          w
      else rest w)"

definition auth_phase :: "SmtpEnv \<Rightarrow> bool run \<Rightarrow> bool run" where
  "auth_phase env rest w =
     (if authMethod w = AuthPlain then
        let encodedUserAndPswd =
              toBase64 (toLatin1 ([0] @ accountUsername w @ [0] @ accountPassword w))
        in unless_ok (pn_sendAndWaitFor env (''AUTH PLAIN '' @ encodedUserAndPswd) ''235'')
             pn_closeAndFail rest w
      else if authMethod w = AuthLogin then
        unless_ok (pn_sendAndWaitFor env ''AUTH LOGIN'' ''334'') pn_closeAndFail
       (unless_ok (pn_sendAndWaitFor env (toBase64 (toLatin1 (accountUsername w))) ''334'')
          pn_closeAndFail
       (unless_ok (pn_sendAndWaitFor env (toBase64 (toUtf8 (accountPassword w))) ''235'')
          pn_closeAndFail rest)) w
      else if authMethod w = AuthCramMd5 then
        unless_ok (pn_sendMessage_data env ''AUTH CRAM-MD5'') pn_closeAndFail
          (\<lambda>w1. case pn_waitForResponse env ''334'' w1 of
                   None \<Rightarrow> None
                 | Some ((ok, msgBody), w2) \<Rightarrow>
                     if \<not> ok then pn_closeAndFail w2
                     else
                       let authCode = hmac_md5 env (toLatin1 (accountPassword w2))
                                        (fromBase64 env msgBody);
                           authToken = toLatin1 (accountUsername w2) @ '' '' @ toHex authCode
                       in unless_ok (pn_sendAndWaitFor env (toBase64 authToken) ''235'')
                            pn_closeAndFail rest w2)
          w
      else rest w)"

definition connectToServer :: "SmtpEnv \<Rightarrow> bool run" where
  "connectToServer env w =
     (if status w \<noteq> ST_Disconnected then
        Some (pn_fail (fromLatin1 ''connection not allowed, client is already connected'') w)
      else
        (case socket w of
           None \<Rightarrow>
             Some (pn_fail (fromLatin1 ''unable to connect, call setConnectionType first'') w)
         | Some s \<Rightarrow>
             if serverHost w = [] \<or> serverPort w = 0 then
               Some (pn_fail (fromLatin1 ''unable to connect, missing server host / port'') w)
             else if clientHost w = [] then
               Some (pn_fail (fromLatin1 ''unable to connect, missing client host'') w)
             else if authMethod w \<noteq> AuthNone
                     \<and> (accountUsername w = [] \<or> accountPassword w = []) then
               Some (pn_fail (fromLatin1 ''unable to connect, missing account credentials'') w)
             else
               (case waitForConnected s of
                  (isConnected, s1) \<Rightarrow>
                    if \<not> isConnected then
                      Some (pn_fail
                              (QString_arg
                                 (fromLatin1
                                    ''unable to connect, connection timeout with error: %1'')
                                 (error_string s1) [])
                              (w\<lparr>socket := Some s1\<rparr>))
                    else
                      unless_ok (pn_waitForResponse_code env ''220'') pn_closeAndFail
                     (unless_ok
                        (pn_sendAndWaitFor env (''EHLO '' @ toLatin1 (clientHost w)) ''250'')
                        pn_closeAndFail
                     (starttls_phase env
                     (auth_phase env
                     (\<lambda>w1. Some (True, w1\<lparr>status := ST_Connected\<rparr>)))))
                        (w\<lparr>socket := Some s1\<rparr>))))"

definition closeConnection :: "Process \<Rightarrow> Process option" where
  "closeConnection w =
     (if status w \<noteq> ST_Connected then Some w
      else (case pn_closeAndFail w of None \<Rightarrow> None | Some (r, w1) \<Rightarrow> Some w1))"

text \<open>The loops of \<open>sendMessage\<close> over the recipients, followed by the rest.\<close>

primrec rcpt_loop :: "SmtpEnv \<Rightarrow> EmailAddress list \<Rightarrow> bool run \<Rightarrow> bool run" where
  "rcpt_loop env [] rest = rest"
| "rcpt_loop env (to # others) rest =
     unless_ok
       (pn_sendAndWaitFor env
          (toLatin1 (QString_arg (fromLatin1 ''RCPT TO:<%1>'') (d_email to) [])) ''250'')
       pn_closeAndFail
       (rcpt_loop env others rest)"

definition sendMessage :: "SmtpEnv \<Rightarrow> MimeMessage \<Rightarrow> bool run" where
  "sendMessage env m w =
     (if \<not> MimeMessage_isValid m then
        Some (pn_fail (fromLatin1 ''unable to send, message is not valid'') w)
      else if status w \<noteq> ST_Connected then
        Some (pn_fail (fromLatin1 ''unable to send, client is not connected'') w)
      else
        unless_ok
          (pn_sendAndWaitFor env
             (toLatin1 (QString_arg (fromLatin1 ''MAIL FROM:<%1>'')
                          (d_email (d_senderAddress m)) [])) ''250'')
          pn_closeAndFail
       (rcpt_loop env (d_toAddresses m)
       (rcpt_loop env (d_ccAddresses m)
       (unless_ok (pn_sendAndWaitFor env ''DATA'' ''354'') pn_closeAndFail
       (unless_ok (pn_sendMessage_msg env m)
          (\<lambda>w1. pn_closeAndFail
                   (snd (pn_fail (fromLatin1
                      ''unexpected error, unable to write msg to socket'') w1)))
       (unless_ok (pn_waitForResponse_code env ''250'') pn_closeAndFail
       (\<lambda>w1. Some (True, w1))))))) w)"

section \<open>Specification vocabulary\<close>

text \<open>The bytes that quoted-printable passes through, \<open>[0-9A-Za-z]\<close>, read as unsigned
  byte values; the uppercase hexadecimal digit of a value below 16; and the encoding of
  one byte as the specification words it.\<close>

definition is_alnum_byte :: "char \<Rightarrow> bool" where
  "is_alnum_byte c =
     (let n = (of_char c :: nat) in
      (48 \<le> n \<and> n \<le> 57) \<or> (65 \<le> n \<and> n \<le> 90) \<or> (97 \<le> n \<and> n \<le> 122))"

definition upper_hex_digit :: "nat \<Rightarrow> char" where
  "upper_hex_digit n = ''0123456789ABCDEF'' ! (n mod 16)"

definition qp_unit :: "char \<Rightarrow> QByteArray" where
  "qp_unit c =
     (if is_alnum_byte c then [c]
      else [CHR ''='', upper_hex_digit (of_char c div 16), upper_hex_digit (of_char c mod 16)])"

text \<open>The lines of a byte stream: the pieces between CRLF pairs (a stream that ends with
  CRLF has an empty last line).\<close>

fun lines_crlf :: "QByteArray \<Rightarrow> QByteArray list" where
  "lines_crlf [] = [[]]"
| "lines_crlf [c] = [[c]]"
| "lines_crlf (c # d # rest) =
     (if c = CHR 0x0D \<and> d = CHR 0x0A then [] # lines_crlf rest
      else (case lines_crlf (d # rest) of
              l # ls \<Rightarrow> (c # l) # ls
            | [] \<Rightarrow> [[c]]))"

text \<open>A well-formed quoted-printable text is a sequence of whole units: a byte of
  \<open>[0-9A-Za-z]\<close>, or \<open>=\<close> with both of its uppercase hexadecimal digits.\<close>

definition is_upper_hex :: "char \<Rightarrow> bool" where
  "is_upper_hex c = (c \<in> set ''0123456789ABCDEF'')"

fun qp_wellformed :: "QByteArray \<Rightarrow> bool" where
  "qp_wellformed [] = True"
| "qp_wellformed (c # cs) =
     (if c = CHR ''='' then
        (case cs of
           h1 # h2 # rest \<Rightarrow> is_upper_hex h1 \<and> is_upper_hex h2 \<and> qp_wellformed rest
         | _ \<Rightarrow> False)
      else is_alnum_byte c \<and> qp_wellformed cs)"

text \<open>No escape is split by the folding: every line but the last is a well-formed text
  followed by the \<open>=\<close> of the soft break, and the last line is a well-formed text.\<close>

fun qp_lines_whole :: "QByteArray list \<Rightarrow> bool" where
  "qp_lines_whole [] = True"
| "qp_lines_whole [l] = qp_wellformed l"
| "qp_lines_whole (l # k # ls) =
     (l \<noteq> [] \<and> last l = CHR ''='' \<and> qp_wellformed (butlast l) \<and> qp_lines_whole (k # ls))"

text \<open>The emitter as the specification words it, on units: before a unit that would
  exceed the budget on the current line, the soft break, and a new line.\<close>

fun qp_fold_units :: "int \<Rightarrow> int \<Rightarrow> QByteArray list \<Rightarrow> QByteArray" where
  "qp_fold_units budget used [] = []"
| "qp_fold_units budget used (u # us) =
     (if used + int (length u) > budget
      then ''='' @ CRLF @ u @ qp_fold_units budget (int (length u)) us
      else u @ qp_fold_units budget (used + int (length u)) us)"

text \<open>A unit of quoted-printable text, as a proof invariant.\<close>

definition unit_ok :: "QByteArray \<Rightarrow> bool" where
  "unit_ok u =
     ((\<exists>c. u = [c] \<and> is_alnum_byte c)
      \<or> (\<exists>h1 h2. u = [CHR ''='', h1, h2] \<and> is_upper_hex h1 \<and> is_upper_hex h2))"

text \<open>An encoded word is \<open>=?utf-8?X?PAYLOAD?=\<close>, with the quoted-printable payload for
  \<open>Q\<close> and the base64 payload for \<open>B\<close>.\<close>

definition mime_word_Q :: "QString \<Rightarrow> QByteArray" where
  "mime_word_Q chunk = ''=?utf-8?Q?'' @ encodeQuotedPrintable chunk @ ''?=''"

definition mime_word_B :: "QString \<Rightarrow> QByteArray" where
  "mime_word_B chunk = ''=?utf-8?B?'' @ toBase64 (toUtf8 chunk) @ ''?=''"

text \<open>One reduction of the chunk size: from \<open>n\<close> to the ceiling of \<open>n / 2\<close>; the size
  tried after \<open>k\<close> reductions is \<open>(ceil_half ^^ k) n\<close>.\<close>

definition ceil_half :: "int \<Rightarrow> int" where
  "ceil_half n = \<lceil>real_of_int n / 2\<rceil>"

text \<open>The words of a text at a chunk size, and whether words fit a size.\<close>

definition words_Q :: "QString \<Rightarrow> int \<Rightarrow> QByteArray list" where
  "words_Q t n = map mime_word_Q (pn_splitTextIntoChunks t n)"

definition words_B :: "QString \<Rightarrow> int \<Rightarrow> QByteArray list" where
  "words_B t n = map mime_word_B (pn_splitTextIntoChunks t n)"

definition words_fit :: "QByteArray list \<Rightarrow> int \<Rightarrow> bool" where
  "words_fit ws max_word_size = list_all (\<lambda>w. size_of w \<le> max_word_size) ws"

text \<open>
  A part that serialises on a device that takes every write: its own checks pass (a
  content type, a text, a file name and a file content), and so do those of the parts
  it writes.  A multipart with one part writes that part only, so its own content type
  is not looked at.
\<close>

fun part_serialisable :: "MimePart \<Rightarrow> bool"
  and parts_serialisable :: "MimePart list \<Rightarrow> bool"
where
  "part_serialisable (MimeText part text) = (text \<noteq> [] \<and> contentType part \<noteq> [])"
| "part_serialisable (MimeHtml part html) = (html \<noteq> [] \<and> contentType part \<noteq> [])"
| "part_serialisable (MimeFile part fileContent disposition) =
     (contentName part \<noteq> [] \<and> fileContent \<noteq> [] \<and> contentType part \<noteq> [])"
| "part_serialisable (MimeMultiPartMixed part []) = False"
| "part_serialisable (MimeMultiPartMixed part [p]) = part_serialisable p"
| "part_serialisable (MimeMultiPartMixed part (p # q # ps)) =
     (contentType part \<noteq> [] \<and> parts_serialisable (p # q # ps))"
| "parts_serialisable [] = True"
| "parts_serialisable (p # ps) = (part_serialisable p \<and> parts_serialisable ps)"

text \<open>The messages a program can build: from the empty message, by the public
  mutators of \<open>MimeMessage\<close>.\<close>

inductive built :: "MimeMessage \<Rightarrow> bool" where
  built_new: "built newMimeMessage"
| built_sender: "built m \<Longrightarrow> built (setSenderAddress a m)"
| built_replyTo: "built m \<Longrightarrow> built (setReplyToAddress a m)"
| built_setTo: "built m \<Longrightarrow> built (setToRecipients as m)"
| built_addTo: "built m \<Longrightarrow> built (addToRecipient a m)"
| built_setCc: "built m \<Longrightarrow> built (setCcRecipients as m)"
| built_addCc: "built m \<Longrightarrow> built (addCcRecipient a m)"
| built_subject: "built m \<Longrightarrow> built (setMessageSubject t m)"
| built_bodyText: "built m \<Longrightarrow> built (setMessageBodyText t m)"
| built_bodyHtml: "built m \<Longrightarrow> built (setMessageBodyHtml t m)"
| built_addPart: "built m \<Longrightarrow> built (addMimePart p m)"

text \<open>The body, when there is one, is the first part and is as its constructor made
  it.\<close>

definition body_is_first :: "MimeMessage \<Rightarrow> bool" where
  "body_is_first m =
     (case d_messageBody m of
        None \<Rightarrow> True
      | Some b \<Rightarrow>
          d_multiPart m \<noteq> [] \<and> hd (d_multiPart m) = b \<and>
          (case b of
             MimeText part text \<Rightarrow> text \<noteq> [] \<and> b = newMimeText text
           | MimeHtml part html \<Rightarrow> html \<noteq> [] \<and> b = newMimeHtml html
           | _ \<Rightarrow> False))"

text \<open>A byte stream ends with the five bytes CR LF \<open>.\<close> CR LF.\<close>

definition ends_with_dot_terminator :: "QByteArray \<Rightarrow> bool" where
  "ends_with_dot_terminator bs =
     (length bs \<ge> 5 \<and> drop (length bs - 5) bs = CRLF @ ''.'' @ CRLF)"

text \<open>
  Positional substitution in a single pass, as the specification words it: the
  template is read once from left to right; \<open>%\<close> followed by the digits of a number \<open>k\<close>
  between 1 and the number of arguments is replaced by the \<open>k\<close>-th argument; nothing that
  was put in is read again.
\<close>

definition is_digit_qchar :: "QChar \<Rightarrow> bool" where
  "is_digit_qchar u = (48 \<le> unat u \<and> unat u \<le> 57)"

definition number_of_digits :: "QString \<Rightarrow> nat" where
  "number_of_digits ds = foldl (\<lambda>n u. 10 * n + (unat u - 48)) 0 ds"

function single_pass_substitute :: "QString list \<Rightarrow> QString \<Rightarrow> QString" where
  "single_pass_substitute args [] = []"
| "single_pass_substitute args (c # cs) =
     (let ds = takeWhile is_digit_qchar cs; k = number_of_digits ds
      in if unat c = 37 \<and> ds \<noteq> [] \<and> 1 \<le> k \<and> k \<le> length args
         then args ! (k - 1) @ single_pass_substitute args (drop (length ds) cs)
         else c # single_pass_substitute args cs)"
  by pat_completeness auto
termination
  by (relation "measure (\<lambda>(a, s). length s)") auto

text \<open>The marker of the \<open>k\<close>-th argument, and whether a text occurs in another.\<close>

definition marker :: "int \<Rightarrow> QString" where
  "marker k = fromLatin1 ''%'' @ QString_number k"

fun occurs_in :: "QString \<Rightarrow> QString \<Rightarrow> bool" where
  "occurs_in m [] = (m = [])"
| "occurs_in m (c # cs) = (take (length m) (c # cs) = m \<or> occurs_in m cs)"

text \<open>Replacement argument by argument: the arguments in call order, the one in turn
  replacing every occurrence of its marker in the message as it then stands.\<close>

fun replace_in_turn :: "int \<Rightarrow> QString list \<Rightarrow> QString \<Rightarrow> QString" where
  "replace_in_turn k [] m = m"
| "replace_in_turn k (a # as) m = replace_in_turn (k + 1) as (QString_replace (marker k) a m)"

definition example_context :: CallContext where
  "example_context = \<lparr>ctx_file = ''smtp_client.cpp'', ctx_line = 70, ctx_fnc = ''pn_logTraffic''\<rparr>"

text \<open>
  The vocabulary of the claims on the driver.  No write was made while a line could be
  read: every write kept by the socket has its flag off.  A process is \<open>live\<close> in a status
  when it has that status and a socket, and, if \<open>strict\<close>, the socket has no such write.
  The connection is \<open>shut\<close> when the socket is closed.  A step \<open>achieves\<close> a condition on its value and the process
  it leaves, from the processes of a given kind, when from each of them it returns (it
  has a result) and the condition holds of it.
\<close>

definition no_crosstalk :: "QTcpSocket \<Rightarrow> bool" where
  "no_crosstalk s = list_all (\<lambda>write. \<not> fst write) (wire s)"

definition socket_ok :: "bool \<Rightarrow> QTcpSocket \<Rightarrow> bool" where
  "socket_ok strict s = (if strict then no_crosstalk s else True)"

definition live :: "bool \<Rightarrow> Status \<Rightarrow> Process \<Rightarrow> bool" where
  "live strict st w =
     (status w = st \<and> (case socket w of None \<Rightarrow> False | Some s \<Rightarrow> socket_ok strict s))"

definition shut :: "Process \<Rightarrow> bool" where
  "shut w = (case socket w of None \<Rightarrow> False | Some s \<Rightarrow> \<not> is_open s \<and> read_buffer s = [])"

definition achieves :: "(Process \<Rightarrow> bool) \<Rightarrow> 'a run \<Rightarrow> ('a \<Rightarrow> Process \<Rightarrow> bool) \<Rightarrow> bool" where
  "achieves P step Q = (\<forall>w. P w \<longrightarrow> (\<exists>r w'. step w = Some (r, w') \<and> Q r w'))"

text \<open>The whole lines in a read buffer, each with its line feed, and what is left
  behind the last of them.\<close>

fun lines_from :: "QByteArray \<Rightarrow> QByteArray \<Rightarrow> QByteArray list" where
  "lines_from cur [] = []"
| "lines_from cur (c # cs) =
     (if c = CHR 0x0A then (cur @ [c]) # lines_from [] cs else lines_from (cur @ [c]) cs)"

definition buffered_lines :: "QByteArray \<Rightarrow> QByteArray list" where
  "buffered_lines buf = lines_from [] buf"

definition unfinished_line :: "QByteArray \<Rightarrow> QByteArray" where
  "unfinished_line buf = drop (length (concat (buffered_lines buf))) buf"

text \<open>The records \<open>pn_isAllowedToSend\<close> writes for a read buffer: the heading, then one
  record for every line.\<close>

definition crosstalk_records :: "SmtpEnv \<Rightarrow> QByteArray \<Rightarrow> (LogType \<times> QString) list" where
  "crosstalk_records env buf =
     (Warning, fromLatin1 ''send fail, found unexpected data available to be read, was:'')
     # map (\<lambda>line. (Warning, fromLatin1 '' > msg-line: '' @ fromUtf8 env line))
         (buffered_lines buf)"

text \<open>
  The processes a program can reach: it constructs a client, with the log and the
  UUID source in any state, and calls the public operations of the client, each of
  which returned.
\<close>

inductive reachable :: "SmtpEnv \<Rightarrow> Process \<Rightarrow> bool" for env :: SmtpEnv where
  reach_new:
    "reachable env (PrivateData.extend (newPrivateData localHostName)
                      \<lparr>log_sink = records, uuids_drawn = n\<rparr>)"
| reach_setServerHost: "reachable env w \<Longrightarrow> reachable env (setServerHost host w)"
| reach_setServerPort: "reachable env w \<Longrightarrow> reachable env (setServerPort port w)"
| reach_setClientHost: "reachable env w \<Longrightarrow> reachable env (setClientHost host w)"
| reach_setAccountUser: "reachable env w \<Longrightarrow> reachable env (setAccountUser user w)"
| reach_setAccountPassword: "reachable env w \<Longrightarrow> reachable env (setAccountPassword pw w)"
| reach_setAuthMethod: "reachable env w \<Longrightarrow> reachable env (setAuthMethod method w)"
| reach_setConnectionTimeout: "reachable env w \<Longrightarrow> reachable env (setConnectionTimeout ms w)"
| reach_setResponseTimeout: "reachable env w \<Longrightarrow> reachable env (setResponseTimeout ms w)"
| reach_setSendTimeout: "reachable env w \<Longrightarrow> reachable env (setSendTimeout ms w)"
| reach_setSocketTrafficLogEnabled:
    "reachable env w \<Longrightarrow> reachable env (setSocketTrafficLogEnabled on w)"
| reach_setConnectionType:
    "reachable env w \<Longrightarrow> setConnectionType ctype script w = Some w' \<Longrightarrow> reachable env w'"
| reach_setConnectionType_verify:
    "reachable env w \<Longrightarrow> setConnectionType_verify ctype vmode ign script w = Some w'
       \<Longrightarrow> reachable env w'"
| reach_connectToServer:
    "reachable env w \<Longrightarrow> connectToServer env w = Some (r, w') \<Longrightarrow> reachable env w'"
| reach_sendMessage:
    "reachable env w \<Longrightarrow> sendMessage env m w = Some (r, w') \<Longrightarrow> reachable env w'"
| reach_closeConnection:
    "reachable env w \<Longrightarrow> closeConnection w = Some w' \<Longrightarrow> reachable env w'"

text \<open>In a reachable process a client without a socket is disconnected, and a socket
  has no write made while a line could be read.\<close>

definition never_crosstalk :: "Process \<Rightarrow> bool" where
  "never_crosstalk w =
     (case socket w of None \<Rightarrow> status w = ST_Disconnected | Some s \<Rightarrow> no_crosstalk s)"

text \<open>How \<open>sendMessage\<close> leaves a connected client: connected when it returns true,
  disconnected with the socket closed when it returns false.\<close>

definition closed_on_failure :: "bool \<Rightarrow> bool \<Rightarrow> Process \<Rightarrow> bool" where
  "closed_on_failure strict r w =
     (if r then live strict ST_Connected w else live strict ST_Disconnected w \<and> shut w)"

text \<open>How \<open>connectToServer\<close> leaves a disconnected client that has a socket.\<close>

definition connect_outcome :: "bool \<Rightarrow> bool \<Rightarrow> Process \<Rightarrow> bool" where
  "connect_outcome strict r w =
     (if r then live strict ST_Connected w else live strict ST_Disconnected w)"

text \<open>The process after a failure that only writes a warning.\<close>

definition warned :: "QByteArray \<Rightarrow> Process \<Rightarrow> Process" where
  "warned err w = w\<lparr>log_sink := log_sink w @ [(Warning, fromLatin1 err)]\<rparr>"

text \<open>
  The message submission as the sequence of its steps.  A command step sends a line
  and waits for the reply with the expected code; it fails when the send is refused or
  the wait fails.  The steps are \<open>MAIL FROM\<close> with the sender, one \<open>RCPT TO\<close> for every To
  and then every Cc recipient, \<open>DATA\<close>, the writing of the message, which leaves a
  warning when it fails, and the wait for the acknowledgement.
\<close>

definition smtp_command :: "SmtpEnv \<Rightarrow> QByteArray \<Rightarrow> QByteArray \<Rightarrow> bool run" where
  "smtp_command env line expected w =
     (case pn_sendMessage_data env line w of
        None \<Rightarrow> None
      | Some (sent, w1) \<Rightarrow>
          if sent then pn_waitForResponse_code env expected w1 else Some (False, w1))"

definition body_step :: "SmtpEnv \<Rightarrow> MimeMessage \<Rightarrow> bool run" where
  "body_step env m w =
     (case pn_sendMessage_msg env m w of
        None \<Rightarrow> None
      | Some (sent, w1) \<Rightarrow>
          if sent then Some (True, w1)
          else Some (False,
                 w1\<lparr>log_sink := log_sink w1
                      @ [(Warning,
                          fromLatin1 ''unexpected error, unable to write msg to socket'')]\<rparr>))"

definition submission :: "SmtpEnv \<Rightarrow> MimeMessage \<Rightarrow> bool run list" where
  "submission env m =
     smtp_command env (''MAIL FROM:<'' @ toLatin1 (d_email (d_senderAddress m)) @ ''>'') ''250''
     # map (\<lambda>recipient.
              smtp_command env (''RCPT TO:<'' @ toLatin1 (d_email recipient) @ ''>'') ''250'')
         (d_toAddresses m @ d_ccAddresses m)
     @ [smtp_command env ''DATA'' ''354'', body_step env m, pn_waitForResponse_code env ''250'']"

text \<open>The process after steps that all returned true, each run in the process the
  one before left.\<close>

fun all_pass :: "bool run list \<Rightarrow> Process \<Rightarrow> Process option" where
  "all_pass [] w = Some w"
| "all_pass (step # rest) w =
     (case step w of
        None \<Rightarrow> None
      | Some (ok, w1) \<Rightarrow> if ok then all_pass rest w1 else None)"

text \<open>
  An environment, a state and a message for the concrete cases: a buffer as the
  device, the \<open>n\<close>-th UUID made of the byte \<open>n\<close>, a fixed date; the message from
  \<open>a@b.co\<close> to \<open>c@d.co\<close> with the subject \<open>s\<close> and the text \<open>hi\<close>.
\<close>

definition example_env :: "QByteArray QtEnv" where
  "example_env =
     \<lparr>dev_write = buffer_write,
      createUuid = (\<lambda>n. replicate 16 (char_of n)),
      currentDateTime = fromLatin1 ''Fri, 30 Oct 2026 10:00:00 +0000''\<rparr>"

definition example_state :: "QByteArray io_state" where
  "example_state = \<lparr>device = [], uuid_calls = 0\<rparr>"

definition example_message :: MimeMessage where
  "example_message =
     setMessageBodyText (fromLatin1 ''hi'')
       (setMessageSubject (fromLatin1 ''s'')
         (addToRecipient \<lparr>d_email = fromLatin1 ''c@d.co'', d_name = []\<rparr>
           (setSenderAddress \<lparr>d_email = fromLatin1 ''a@b.co'', d_name = []\<rparr>
             newMimeMessage)))"

text \<open>A connected client with the defaults and the traffic log off.\<close>

definition example_connected :: PrivateData where
  "example_connected =
     (newPrivateData (fromLatin1 ''localhost''))
       \<lparr>status := ST_Connected, socket := Some ((newQTcpSocket [])\<lparr>is_open := True\<rparr>)\<rparr>"


text \<open>
  The library functions for the concrete cases: bytes decoded as Latin-1, Base64 left
  undecoded, a constant digest, the \<open>n\<close>-th UUID made of the byte \<open>n\<close>, a fixed date.
\<close>

definition example_smtp_env :: SmtpEnv where
  "example_smtp_env =
     \<lparr>fromUtf8 = fromLatin1, fromBase64 = (\<lambda>bytes. bytes),
      hmac_md5 = (\<lambda>key bytes. replicate 16 (CHR 0x00)),
      uuid_source = (\<lambda>n. replicate 16 (char_of n)),
      clock = fromLatin1 ''Fri, 30 Oct 2026 10:00:00 +0000''\<rparr>"

text \<open>A new client with an empty log, and one that was given a TCP socket.\<close>

definition example_client :: Process where
  "example_client =
     PrivateData.extend (newPrivateData (fromLatin1 ''localhost''))
       \<lparr>log_sink = [], uuids_drawn = 0\<rparr>"

text \<open>The socket of a connected client after the server sent a line nobody asked for,
  and the process of that client.\<close>

definition example_crosstalk_socket :: QTcpSocket where
  "example_crosstalk_socket =
     (newQTcpSocket [])\<lparr>is_open := True, read_buffer := ''250 ok'' @ CRLF\<rparr>"

definition example_crosstalk :: Process where
  "example_crosstalk =
     example_client\<lparr>status := ST_Connected, socket := Some example_crosstalk_socket\<rparr>"

text \<open>
  A client set up for the server \<open>mx\<close> at the port 25 over TCP, without authentication.
  The peer of its socket accepts the connection, greets with 220 and answers 250 to the
  \<open>EHLO\<close>.
\<close>

definition example_script :: "wait_outcome list" where
  "example_script = [Ready [], Ready (''220 x'' @ CRLF), Ready (''250 ok'' @ CRLF)]"

definition example_configured :: Process where
  "example_configured = setServerPort 25 (setServerHost (fromLatin1 ''mx'') example_client)"

definition example_scripted :: Process where
  "example_scripted =
     example_configured\<lparr>connectionType := TcpConnection,
                          socket := Some (newQTcpSocket example_script)\<rparr>"

text \<open>A connected client whose server will accept the sender and refuse the
  recipient.\<close>

definition example_refusing_socket :: QTcpSocket where
  "example_refusing_socket =
     (newQTcpSocket [Ready (''250 ok'' @ CRLF), Ready (''550 no such user'' @ CRLF)])
       \<lparr>is_open := True\<rparr>"

definition example_refused :: Process where
  "example_refused =
     example_client\<lparr>status := ST_Connected, socket := Some example_refusing_socket\<rparr>"

text \<open>A connected client whose server will accept the sender, the recipient, the
  \<open>DATA\<close> command and the message.\<close>

definition example_accepting_socket :: QTcpSocket where
  "example_accepting_socket =
     (newQTcpSocket [Ready (''250 ok'' @ CRLF), Ready (''250 ok'' @ CRLF),
                     Ready (''354 go'' @ CRLF), Ready (''250 queued'' @ CRLF)])
       \<lparr>is_open := True\<rparr>"

definition example_accepted :: Process where
  "example_accepted =
     example_client\<lparr>status := ST_Connected, socket := Some example_accepting_socket\<rparr>"



section \<open>Verification: quoted-printable encoding\<close>

lemma need_escape_iff:
  "pn_needEscapeForQuotedPrintableEncoding (to_qint8 c) = (\<not> is_alnum_byte c)"
proof -
  define n where "n = (of_char c :: nat)"
  have lt: "n < 256" unfolding n_def by (rule nat_of_char_less_256)
  have q: "to_qint8 c = (if n < 128 then int n else int n - 256)"
    unfolding to_qint8_def n_def ..
  have a: "is_alnum_byte c =
      ((48 \<le> n \<and> n \<le> 57) \<or> (65 \<le> n \<and> n \<le> 90) \<or> (97 \<le> n \<and> n \<le> 122))"
    unfolding is_alnum_byte_def n_def Let_def ..
  show ?thesis
    unfolding q a pn_needEscapeForQuotedPrintableEncoding_def using lt by auto
qed

lemma upper_hex_digit_all:
  "list_all (\<lambda>n. upper_char (hex_digit n) = upper_hex_digit n) [0..<16]"
  by code_simp

lemma upper_hex_digit_eq:
  assumes "n < 16"
  shows "upper_char (hex_digit n) = upper_hex_digit n"
proof -
  from assms have "n \<in> set [0..<16]" by simp
  with upper_hex_digit_all show ?thesis
    unfolding list_all_iff by blast
qed

lemma toUpper_toHex:
  "toUpper (toHex [c]) = [upper_hex_digit (of_char c div 16), upper_hex_digit (of_char c mod 16)]"
proof -
  have "(of_char c :: nat) < 256" by (rule nat_of_char_less_256)
  then have "(of_char c :: nat) div 16 < 16" by arith
  then show ?thesis
    by (simp add: toUpper_def toHex_def upper_hex_digit_eq)
qed

lemma qp_loop_eq: "qp_loop out bs = out @ concat (map qp_unit bs)"
  by (induction bs arbitrary: out) (simp_all add: need_escape_iff toUpper_toHex qp_unit_def)

lemma encodeQuotedPrintable_units: "encodeQuotedPrintable s = concat (map qp_unit (toUtf8 s))"
  by (simp add: encodeQuotedPrintable_def qp_loop_eq)

text \<open>
  Claim C4.  For every string \<open>s\<close>, \<open>encodeQuotedPrintable s\<close> is the concatenation, in
  order, of the encodings of the UTF-8 bytes of \<open>s\<close>: a byte in \<open>[0-9A-Za-z]\<close> is passed
  through unchanged, every other byte becomes \<open>=\<close> followed by its two uppercase
  hexadecimal digits.  In particular \<open>a=b\<close> followed by a line feed encodes to
  \<open>a=3Db=0A\<close>.
\<close>

theorem C4_encodeQuotedPrintable:
  "encodeQuotedPrintable s = concat (map qp_unit (toUtf8 s))
   \<and> encodeQuotedPrintable (fromLatin1 [CHR ''a'', CHR ''='', CHR ''b'', CHR 0x0A]) = ''a=3Db=0A''"
proof
  show "encodeQuotedPrintable s = concat (map qp_unit (toUtf8 s))"
    by (rule encodeQuotedPrintable_units)
  show "encodeQuotedPrintable (fromLatin1 [CHR ''a'', CHR ''='', CHR ''b'', CHR 0x0A]) = ''a=3Db=0A''"
    unfolding encodeQuotedPrintable_units
    by (simp add: fromLatin1_def qp_unit_def is_alnum_byte_def upper_hex_digit_def
        utf8_of_codepoint_def isHighSurrogate_def isLowSurrogate_def char_of_eq_iff)
qed

theorem C4_encodeQuotedPrintable_witness:
  "encodeQuotedPrintable [0x43, 0x61, 0x66, 0xE9] = ''Caf=C3=A9''"
  using C4_encodeQuotedPrintable [of "[0x43, 0x61, 0x66, 0xE9]"]
  by (simp add: qp_unit_def is_alnum_byte_def upper_hex_digit_def
      utf8_of_codepoint_def isHighSurrogate_def isLowSurrogate_def char_of_eq_iff)


section \<open>Verification: quoted-printable line folding\<close>

lemma alnum_not_eq: "is_alnum_byte c \<Longrightarrow> c \<noteq> CHR ''=''"
  by (auto simp: is_alnum_byte_def Let_def)

lemma alnum_not_cr: "is_alnum_byte c \<Longrightarrow> c \<noteq> CHR 0x0D"
  by (auto simp: is_alnum_byte_def Let_def)

lemma hex_not_cr: "is_upper_hex c \<Longrightarrow> c \<noteq> CHR 0x0D"
  by (auto simp: is_upper_hex_def)

lemma lines_crlf_nonempty: "lines_crlf xs \<noteq> []"
  by (induction xs rule: lines_crlf.induct) (auto split: list.splits)

lemma lines_crlf_Cons: "c \<noteq> CHR 0x0D \<Longrightarrow> lines_crlf (c # ys) = (c # hd (lines_crlf ys)) # tl (lines_crlf ys)"
  using lines_crlf_nonempty [of ys]
  by (cases ys) (auto split: list.splits)

lemma lines_crlf_append:
  "CHR 0x0D \<notin> set xs \<Longrightarrow> lines_crlf (xs @ ys) = (xs @ hd (lines_crlf ys)) # tl (lines_crlf ys)"
proof (induction xs)
  case Nil
  then show ?case using lines_crlf_nonempty [of ys] by simp
next
  case (Cons x xs)
  then have "x \<noteq> CHR 0x0D" and "CHR 0x0D \<notin> set xs" by auto
  with Cons.IH show ?case by (simp add: lines_crlf_Cons)
qed

lemma lines_crlf_plain: "CHR 0x0D \<notin> set xs \<Longrightarrow> lines_crlf xs = [xs]"
  using lines_crlf_append [of xs "[]"] by simp

lemma lines_crlf_break:
  "CHR 0x0D \<notin> set xs \<Longrightarrow> lines_crlf (xs @ CRLF @ ys) = xs # lines_crlf ys"
  by (simp add: lines_crlf_append CRLF_def)

lemma unit_no_cr: "unit_ok u \<Longrightarrow> CHR 0x0D \<notin> set u"
  by (auto simp: unit_ok_def dest: alnum_not_cr hex_not_cr)

lemma unit_len: "unit_ok u \<Longrightarrow> 1 \<le> length u \<and> length u \<le> 3"
  by (auto simp: unit_ok_def)

lemma fold_units_bound:
  assumes "3 \<le> m" 
  shows "\<forall>u\<in>set us. unit_ok u \<Longrightarrow> int (length cur) = used \<Longrightarrow> used \<le> m \<Longrightarrow> CHR 0x0D \<notin> set cur
    \<Longrightarrow> list_all (\<lambda>l. int (length l) \<le> m + 1) (lines_crlf (cur @ qp_fold_units m used us))"
proof (induction us arbitrary: cur used)
  case Nil
  then show ?case by (simp add: lines_crlf_plain)
next
  case (Cons u us)
  then have u: "unit_ok u" and rest: "\<forall>u\<in>set us. unit_ok u" by simp_all
  show ?case
  proof (cases "used + int (length u) > m")
    case True
    have cr: "CHR 0x0D \<notin> set (cur @ ''='')" using Cons.prems by simp
    have "list_all (\<lambda>l. int (length l) \<le> m + 1) (lines_crlf (u @ qp_fold_units m (int (length u)) us))"
      using Cons.IH [OF rest, of u "int (length u)"] unit_no_cr [OF u] unit_len [OF u] assms by simp
    moreover have "lines_crlf (cur @ qp_fold_units m used (u # us))
        = (cur @ ''='') # lines_crlf (u @ qp_fold_units m (int (length u)) us)"
      using True lines_crlf_break [OF cr, of "u @ qp_fold_units m (int (length u)) us"] by simp
    ultimately show ?thesis using Cons.prems by simp
  next
    case False
    then have "list_all (\<lambda>l. int (length l) \<le> m + 1) (lines_crlf ((cur @ u) @ qp_fold_units m (used + int (length u)) us))"
      using Cons.IH [OF rest, of "cur @ u" "used + int (length u)"] unit_no_cr [OF u] Cons.prems by simp
    then show ?thesis using False by simp
  qed
qed

lemma qp_wellformed_append:
  "qp_wellformed xs \<Longrightarrow> qp_wellformed ys \<Longrightarrow> qp_wellformed (xs @ ys)"
  by (induction xs rule: qp_wellformed.induct) (auto split: list.splits if_splits)

lemma unit_wellformed: "unit_ok u \<Longrightarrow> qp_wellformed u"
  by (auto simp: unit_ok_def dest: alnum_not_eq)

lemma qp_lines_whole_Cons:
  "ls \<noteq> [] \<Longrightarrow> qp_lines_whole (l # ls) =
     (l \<noteq> [] \<and> last l = CHR ''='' \<and> qp_wellformed (butlast l) \<and> qp_lines_whole ls)"
  by (cases ls) simp_all

lemma fold_units_whole:
  "\<forall>u\<in>set us. unit_ok u \<Longrightarrow> qp_wellformed cur \<Longrightarrow> CHR 0x0D \<notin> set cur
    \<Longrightarrow> qp_lines_whole (lines_crlf (cur @ qp_fold_units m used us))"
proof (induction us arbitrary: cur used)
  case Nil
  then show ?case by (simp add: lines_crlf_plain)
next
  case (Cons u us)
  then have u: "unit_ok u" and rest: "\<forall>u\<in>set us. unit_ok u" by simp_all
  show ?case
  proof (cases "used + int (length u) > m")
    case True
    have cr: "CHR 0x0D \<notin> set (cur @ ''='')" using Cons.prems by simp
    have "qp_lines_whole (lines_crlf (u @ qp_fold_units m (int (length u)) us))"
      using Cons.IH [OF rest, of u "int (length u)"] unit_no_cr [OF u] unit_wellformed [OF u]
      by simp
    moreover have "lines_crlf (cur @ qp_fold_units m used (u # us))
        = (cur @ ''='') # lines_crlf (u @ qp_fold_units m (int (length u)) us)"
      using True lines_crlf_break [OF cr, of "u @ qp_fold_units m (int (length u)) us"] by simp
    ultimately show ?thesis
      using Cons.prems lines_crlf_nonempty by (simp add: qp_lines_whole_Cons)
  next
    case False
    have "qp_lines_whole (lines_crlf ((cur @ u) @ qp_fold_units m (used + int (length u)) us))"
      using Cons.IH [OF rest, of "cur @ u" "used + int (length u)"] unit_no_cr [OF u]
        unit_wellformed [OF u] Cons.prems qp_wellformed_append by simp
    then show ?thesis using False by simp
  qed
qed

lemma upper_hex_digit_is: "is_upper_hex (upper_hex_digit n)"
proof -
  have "list_all (\<lambda>k. is_upper_hex (upper_hex_digit k)) [0..<16]" by code_simp
  moreover have "n mod 16 \<in> set [0..<16]" by simp
  ultimately have "is_upper_hex (upper_hex_digit (n mod 16))" unfolding list_all_iff by blast
  then show ?thesis by (simp add: upper_hex_digit_def)
qed

lemma qp_unit_ok: "unit_ok (qp_unit c)"
  by (simp add: unit_ok_def qp_unit_def upper_hex_digit_is)

lemma loop_units:
  "\<forall>u\<in>set us. unit_ok u \<Longrightarrow> qp_lines_loop m used (concat us) = qp_fold_units m used us"
proof (induction us arbitrary: used)
  case Nil
  then show ?case by simp
next
  case (Cons u us)
  then have u: "unit_ok u" and rest: "\<forall>u\<in>set us. unit_ok u" by simp_all
  note IH = Cons.IH [OF rest]
  from u show ?case
  proof (unfold unit_ok_def, elim disjE exE conjE)
    fix c assume "u = [c]" "is_alnum_byte c"
    then show ?thesis using IH alnum_not_eq [of c] by (simp add: mid_def)
  next
    fix h1 h2 assume "u = [CHR ''='', h1, h2]"
    then show ?thesis using IH by (simp add: mid_def)
  qed
qed

lemma format_units:
  assumes "0 < max_line"
  shows "formatQuotedPrintableIntoLines (encodeQuotedPrintable s) max_line
     = qp_fold_units (max_line - 1) 0 (map qp_unit (toUtf8 s))"
proof -
  let ?us = "map qp_unit (toUtf8 s)"
  have ok: "\<forall>u\<in>set ?us. unit_ok u" by (simp add: qp_unit_ok)
  have "qp_lines_loop (max_line - 1) 0 (concat ?us) = qp_fold_units (max_line - 1) 0 ?us"
    by (rule loop_units [OF ok])
  then show ?thesis
    using assms
    by (cases "concat ?us = []")
       (simp_all only: formatQuotedPrintableIntoLines_def encodeQuotedPrintable_units
          qp_lines_loop.simps if_True if_False not_le [symmetric] simp_thms)
qed

text \<open>
  Claim C5 (as amended).  For quoted-printable text \<open>e = encodeQuotedPrintable s\<close> and
  \<open>0 < max_line\<close>, \<open>formatQuotedPrintableIntoLines e max_line\<close> emits the units of \<open>e\<close>
  left to right, with the soft break before each unit that would exceed \<open>max_line - 1\<close>
  on the current line; no \<open>=HH\<close> escape is split across two lines; and when
  \<open>4 \<le> max_line\<close> every line of the output is at most \<open>max_line\<close> bytes long
  (CRLF excluded).
\<close>

theorem C5_formatQuotedPrintableIntoLines:
  assumes "0 < max_line"
  shows "formatQuotedPrintableIntoLines (encodeQuotedPrintable s) max_line
           = qp_fold_units (max_line - 1) 0 (map qp_unit (toUtf8 s))
    \<and> qp_lines_whole (lines_crlf (formatQuotedPrintableIntoLines (encodeQuotedPrintable s) max_line))
    \<and> (4 \<le> max_line \<longrightarrow>
         list_all (\<lambda>l. int (length l) \<le> max_line)
           (lines_crlf (formatQuotedPrintableIntoLines (encodeQuotedPrintable s) max_line)))"
proof (intro conjI impI)
  let ?us = "map qp_unit (toUtf8 s)"
  have ok: "\<forall>u\<in>set ?us. unit_ok u" by (simp add: qp_unit_ok)
  show eq: "formatQuotedPrintableIntoLines (encodeQuotedPrintable s) max_line
           = qp_fold_units (max_line - 1) 0 ?us"
    by (rule format_units [OF assms])
  show "qp_lines_whole (lines_crlf (formatQuotedPrintableIntoLines (encodeQuotedPrintable s) max_line))"
    unfolding eq using fold_units_whole [OF ok, of "[]" "max_line - 1" 0] by simp
  assume four: "4 \<le> max_line"
  then have "3 \<le> max_line - 1" by simp
  from fold_units_bound [OF this ok, of "[]" 0]
  show "list_all (\<lambda>l. int (length l) \<le> max_line)
           (lines_crlf (formatQuotedPrintableIntoLines (encodeQuotedPrintable s) max_line))"
    unfolding eq using four by simp
qed

lemma enc_eqeq: "encodeQuotedPrintable (fromLatin1 ''=='') = ''=3D=3D''"
  unfolding encodeQuotedPrintable_units
    by (simp add: fromLatin1_def qp_unit_def is_alnum_byte_def upper_hex_digit_def
        utf8_of_codepoint_def isHighSurrogate_def isLowSurrogate_def char_of_eq_iff)

text \<open>
  Claim C5 as stated fails for \<open>max_line < 4\<close>: an escape needs three bytes and the soft
  break a fourth.  The text \<open>==\<close> encodes to \<open>=3D=3D\<close>, and folded at \<open>max_line = 3\<close> its
  second line is \<open>=3D=\<close>, four bytes long.
\<close>

theorem C5_counterexample:
  "\<not> list_all (\<lambda>l. int (length l) \<le> 3)
       (lines_crlf (formatQuotedPrintableIntoLines (encodeQuotedPrintable (fromLatin1 ''=='')) 3))"
  unfolding enc_eqeq
  by (simp add: formatQuotedPrintableIntoLines_def mid_def CRLF_def)


lemma enc_ab: "encodeQuotedPrintable (fromLatin1 [CHR ''a'', CHR ''='', CHR ''b'', CHR 0x0A]) = ''a=3Db=0A''"
  unfolding encodeQuotedPrintable_units
    by (simp add: fromLatin1_def qp_unit_def is_alnum_byte_def upper_hex_digit_def
        utf8_of_codepoint_def isHighSurrogate_def isLowSurrogate_def char_of_eq_iff)

theorem C5_formatQuotedPrintableIntoLines_witness:
  "lines_crlf (formatQuotedPrintableIntoLines
      (encodeQuotedPrintable (fromLatin1 [CHR ''a'', CHR ''='', CHR ''b'', CHR 0x0A])) 4)
     = [''a='', ''=3D='', ''b='', ''=0A'']
   \<and> qp_lines_whole [''a='', ''=3D='', ''b='', ''=0A'']
   \<and> list_all (\<lambda>l. int (length l) \<le> 4) [''a='', ''=3D='', ''b='', ''=0A'']"
proof -
  have l: "lines_crlf (formatQuotedPrintableIntoLines
      (encodeQuotedPrintable (fromLatin1 [CHR ''a'', CHR ''='', CHR ''b'', CHR 0x0A])) 4)
     = [''a='', ''=3D='', ''b='', ''=0A'']"
    unfolding enc_ab by (simp add: formatQuotedPrintableIntoLines_def mid_def CRLF_def)
  from C5_formatQuotedPrintableIntoLines [of 4 "fromLatin1 [CHR ''a'', CHR ''='', CHR ''b'', CHR 0x0A]"]
  show ?thesis unfolding l by simp
qed


section \<open>Verification: encoded words\<close>

declare encodeMimeWordQ_loop.simps [simp del]
declare encodeMimeWordB_loop.simps [simp del]

lemma ceil_half_eq: "ceil_half n = n div 2 + n mod 2"
proof -
  define q r where "q = n div 2" and "r = n mod 2"
  have n: "n = 2 * q + r" and r: "0 \<le> r" "r \<le> 1" unfolding q_def r_def by presburger+
  have "\<lceil>real_of_int n / 2\<rceil> = q + r"
  proof (rule ceiling_unique)
    show "real_of_int (q + r) - 1 < real_of_int n / 2" using r unfolding n by simp
    show "real_of_int n / 2 \<le> real_of_int (q + r)" using r unfolding n by simp
  qed
  then show ?thesis unfolding ceil_half_def q_def r_def by simp
qed

lemma wordsQ_loop_spec:
  "wordsQ_loop ws l cs = (ws', l') \<Longrightarrow>
     ws' = ws @ map mime_word_Q cs \<and> l \<le> l' \<and> list_all (\<lambda>w. size_of w \<le> l') (map mime_word_Q cs)"
proof (induction cs arbitrary: ws l)
  case Nil
  then show ?case by simp
next
  case (Cons c cs)
  from Cons.prems have
    "wordsQ_loop (ws @ [mime_word_Q c]) (max l (size_of (mime_word_Q c))) cs = (ws', l')"
    by (simp add: mime_word_Q_def Let_def)
  from Cons.IH [OF this] show ?case by simp
qed

lemma wordsB_loop_spec:
  "wordsB_loop ws l cs = (ws', l') \<Longrightarrow>
     ws' = ws @ map mime_word_B cs \<and> l \<le> l' \<and> list_all (\<lambda>w. size_of w \<le> l') (map mime_word_B cs)"
proof (induction cs arbitrary: ws l)
  case Nil
  then show ?case by simp
next
  case (Cons c cs)
  from Cons.prems have
    "wordsB_loop (ws @ [mime_word_B c]) (max l (size_of (mime_word_B c))) cs = (ws', l')"
    by (simp add: mime_word_B_def Let_def)
  from Cons.IH [OF this] show ?case by simp
qed

lemma list_all_le_trans:
  "list_all (\<lambda>w. size_of w \<le> l) ws \<Longrightarrow> l \<le> (m::int) \<Longrightarrow> list_all (\<lambda>w. size_of w \<le> m) ws"
  by (induction ws) auto

lemma split_loop_inv:
  assumes "1 \<le> m"
  shows "list_all (\<lambda>c. 1 \<le> length c \<and> int (length c) \<le> m) chunks \<Longrightarrow>
     list_all (\<lambda>c. 1 \<le> length c \<and> int (length c) \<le> m) (split_loop m chunks rest)
     \<and> concat (split_loop m chunks rest) = concat chunks @ rest"
proof (induction rest arbitrary: chunks)
  case Nil
  then show ?case by simp
next
  case (Cons x rest)
  show ?case
  proof (cases "chunks = [] \<or> size_of (last chunks) \<ge> m")
    case True
    then have step: "split_loop m chunks (x # rest) = split_loop m (chunks @ [[x]]) rest"
      by (simp add: Let_def)
    have "list_all (\<lambda>c. 1 \<le> length c \<and> int (length c) \<le> m) (chunks @ [[x]])"
      using Cons.prems assms by simp
    from Cons.IH [OF this] show ?thesis unfolding step by simp
  next
    case False
    then have ne: "chunks \<noteq> []" and lt: "size_of (last chunks) < m" by auto
    then have step: "split_loop m chunks (x # rest)
        = split_loop m (butlast chunks @ [last chunks @ [x]]) rest"
      by (simp add: Let_def)
    have cs: "chunks = butlast chunks @ [last chunks]" using ne by simp
    have "list_all (\<lambda>c. 1 \<le> length c \<and> int (length c) \<le> m) (butlast chunks @ [last chunks])"
      using Cons.prems cs by simp
    then have "list_all (\<lambda>c. 1 \<le> length c \<and> int (length c) \<le> m)
        (butlast chunks @ [last chunks @ [x]])"
      using lt by (simp add: size_of_def)
    from Cons.IH [OF this] have
      "list_all (\<lambda>c. 1 \<le> length c \<and> int (length c) \<le> m) (split_loop m chunks (x # rest))"
      and "concat (split_loop m chunks (x # rest))
         = concat (butlast chunks @ [last chunks @ [x]]) @ rest"
      unfolding step by simp_all
    moreover have "concat (butlast chunks @ [last chunks @ [x]]) = concat chunks @ [x]"
      using arg_cong [OF cs, of concat] by simp
    ultimately show ?thesis by simp
  qed
qed

lemma pn_splitTextIntoChunks_inv:
  assumes "1 \<le> n"
  shows "list_all (\<lambda>c. 1 \<le> length c \<and> int (length c) \<le> n) (pn_splitTextIntoChunks t n)
     \<and> concat (pn_splitTextIntoChunks t n) = t"
proof (cases "t = [] \<or> n \<ge> size_of t")
  case True
  then show ?thesis
    using assms by (cases t) (auto simp: pn_splitTextIntoChunks_def size_of_def)
next
  case False
  then have "pn_splitTextIntoChunks t n = split_loop n [] t"
    using assms by (simp add: pn_splitTextIntoChunks_def)
  then show ?thesis using split_loop_inv [OF assms, of "[]" t] by simp
qed

lemma chunks_of_one: "list_all (\<lambda>c. length c = 1) (pn_splitTextIntoChunks t 1)"
proof -
  have "list_all (\<lambda>c. 1 \<le> length c \<and> int (length c) \<le> 1) (pn_splitTextIntoChunks t 1)"
    using pn_splitTextIntoChunks_inv [of 1 t] by simp
  then show ?thesis by (rule list.pred_mono_strong) simp
qed

lemma wordsQ_loop_longest:
  "wordsQ_loop ws l cs = (ws', l') \<Longrightarrow>
     (l' \<le> mw) = (l \<le> mw \<and> list_all (\<lambda>w. size_of w \<le> mw) (map mime_word_Q cs))"
proof (induction cs arbitrary: ws l)
  case Nil
  then show ?case by simp
next
  case (Cons c cs)
  from Cons.prems have
    "wordsQ_loop (ws @ [mime_word_Q c]) (max l (size_of (mime_word_Q c))) cs = (ws', l')"
    by (simp add: mime_word_Q_def Let_def)
  from Cons.IH [OF this] show ?case by auto
qed

lemma longest_Q_fits:
  assumes "t \<noteq> []" and "1 \<le> n"
    and "wordsQ_loop [] 0 (pn_splitTextIntoChunks t n) = (ws, l)"
  shows "(l \<le> mw) = words_fit (words_Q t n) mw"
proof -
  from pn_splitTextIntoChunks_inv [OF assms(2), of t] assms(1)
  obtain c cs where cs: "pn_splitTextIntoChunks t n = c # cs"
    by (cases "pn_splitTextIntoChunks t n") auto
  have "0 \<le> size_of (mime_word_Q c)" by (simp add: size_of_def)
  then have "list_all (\<lambda>w. size_of w \<le> mw) (map mime_word_Q (c # cs)) \<Longrightarrow> 0 \<le> mw"
    by simp
  with wordsQ_loop_longest [OF assms(3), of mw] show ?thesis
    unfolding words_fit_def words_Q_def cs by blast
qed

lemma encodeMimeWordQ_loop_spec:
  "t \<noteq> [] \<Longrightarrow> 1 \<le> n \<Longrightarrow>
   \<exists>k. 1 \<le> (ceil_half ^^ k) n
     \<and> (\<forall>j<k. 1 < (ceil_half ^^ j) n \<and> \<not> words_fit (words_Q t ((ceil_half ^^ j) n)) mw)
     \<and> encodeMimeWordQ_loop t mw n = join (CRLF @ '' '') (words_Q t ((ceil_half ^^ k) n))
     \<and> (words_fit (words_Q t ((ceil_half ^^ k) n)) mw \<or> (ceil_half ^^ k) n = 1)"
proof (induction t mw n rule: encodeMimeWordQ_loop.induct)
  case (1 t mw n)
  let ?chunks = "pn_splitTextIntoChunks t n"
  obtain ws l where wl: "wordsQ_loop [] 0 ?chunks = (ws, l)" by fastforce
  from wordsQ_loop_spec [OF wl] have ws: "ws = words_Q t n" by (simp add: words_Q_def)
  note fits = longest_Q_fits [OF "1.prems" wl, of mw]
  show ?case
  proof (cases "l \<le> mw \<or> n \<le> 1")
    case True
    have "encodeMimeWordQ_loop t mw n = join (CRLF @ '' '') (words_Q t n)"
      using True wl ws by (subst encodeMimeWordQ_loop.simps) (simp add: Let_def)
    moreover have "words_fit (words_Q t n) mw \<or> n = 1"
      using True fits "1.prems" by auto
    ultimately have "1 \<le> (ceil_half ^^ 0) n
     \<and> (\<forall>j<0. 1 < (ceil_half ^^ j) n \<and> \<not> words_fit (words_Q t ((ceil_half ^^ j) n)) mw)
     \<and> encodeMimeWordQ_loop t mw n = join (CRLF @ '' '') (words_Q t ((ceil_half ^^ 0) n))
     \<and> (words_fit (words_Q t ((ceil_half ^^ 0) n)) mw \<or> (ceil_half ^^ 0) n = 1)"
      using "1.prems" by simp
    then show ?thesis by (rule exI)
  next
    case False
    let ?n = "n div 2 + n mod 2"
    have eq: "encodeMimeWordQ_loop t mw n = encodeMimeWordQ_loop t mw ?n"
      using False wl by (subst encodeMimeWordQ_loop.simps) (simp add: Let_def)
    have n1: "1 \<le> ?n" using False by presburger
    have here: "1 < n" "\<not> words_fit (words_Q t n) mw" using False fits by auto
    from "1.IH" [OF refl refl wl [symmetric] False "1.prems"(1) n1]
    obtain k where k: "1 \<le> (ceil_half ^^ k) ?n"
      "\<forall>j<k. 1 < (ceil_half ^^ j) ?n \<and> \<not> words_fit (words_Q t ((ceil_half ^^ j) ?n)) mw"
      "encodeMimeWordQ_loop t mw ?n = join (CRLF @ '' '') (words_Q t ((ceil_half ^^ k) ?n))"
      "words_fit (words_Q t ((ceil_half ^^ k) ?n)) mw \<or> (ceil_half ^^ k) ?n = 1"
      by blast
    have shift: "(ceil_half ^^ Suc j) n = (ceil_half ^^ j) ?n" for j
      by (simp add: funpow_swap1 ceil_half_eq [of n])
    have earlier: "1 < (ceil_half ^^ j) n \<and> \<not> words_fit (words_Q t ((ceil_half ^^ j) n)) mw"
      if "j < Suc k" for j
    proof (cases j)
      case 0
      with here show ?thesis by simp
    next
      case (Suc i)
      with that have "i < k" by simp
      with k(2) have "1 < (ceil_half ^^ i) ?n
          \<and> \<not> words_fit (words_Q t ((ceil_half ^^ i) ?n)) mw" by blast
      then show ?thesis unfolding Suc shift .
    qed
    have "1 \<le> (ceil_half ^^ Suc k) n
     \<and> (\<forall>j<Suc k. 1 < (ceil_half ^^ j) n \<and> \<not> words_fit (words_Q t ((ceil_half ^^ j) n)) mw)
     \<and> encodeMimeWordQ_loop t mw n = join (CRLF @ '' '') (words_Q t ((ceil_half ^^ Suc k) n))
     \<and> (words_fit (words_Q t ((ceil_half ^^ Suc k) n)) mw \<or> (ceil_half ^^ Suc k) n = 1)"
      unfolding shift eq using k(1,3,4) earlier by blast
    then show ?thesis by (rule exI)
  qed
qed

lemma wordsB_loop_longest:
  "wordsB_loop ws l cs = (ws', l') \<Longrightarrow>
     (l' \<le> mw) = (l \<le> mw \<and> list_all (\<lambda>w. size_of w \<le> mw) (map mime_word_B cs))"
proof (induction cs arbitrary: ws l)
  case Nil
  then show ?case by simp
next
  case (Cons c cs)
  from Cons.prems have
    "wordsB_loop (ws @ [mime_word_B c]) (max l (size_of (mime_word_B c))) cs = (ws', l')"
    by (simp add: mime_word_B_def Let_def)
  from Cons.IH [OF this] show ?case by auto
qed

lemma longest_B_fits:
  assumes "t \<noteq> []" and "1 \<le> n"
    and "wordsB_loop [] 0 (pn_splitTextIntoChunks t n) = (ws, l)"
  shows "(l \<le> mw) = words_fit (words_B t n) mw"
proof -
  from pn_splitTextIntoChunks_inv [OF assms(2), of t] assms(1)
  obtain c cs where cs: "pn_splitTextIntoChunks t n = c # cs"
    by (cases "pn_splitTextIntoChunks t n") auto
  have "0 \<le> size_of (mime_word_B c)" by (simp add: size_of_def)
  then have "list_all (\<lambda>w. size_of w \<le> mw) (map mime_word_B (c # cs)) \<Longrightarrow> 0 \<le> mw"
    by simp
  with wordsB_loop_longest [OF assms(3), of mw] show ?thesis
    unfolding words_fit_def words_B_def cs by blast
qed

lemma encodeMimeWordB_loop_spec:
  "t \<noteq> [] \<Longrightarrow> 1 \<le> n \<Longrightarrow>
   \<exists>k. 1 \<le> (ceil_half ^^ k) n
     \<and> (\<forall>j<k. 1 < (ceil_half ^^ j) n \<and> \<not> words_fit (words_B t ((ceil_half ^^ j) n)) mw)
     \<and> encodeMimeWordB_loop t mw n = join (CRLF @ '' '') (words_B t ((ceil_half ^^ k) n))
     \<and> (words_fit (words_B t ((ceil_half ^^ k) n)) mw \<or> (ceil_half ^^ k) n = 1)"
proof (induction t mw n rule: encodeMimeWordB_loop.induct)
  case (1 t mw n)
  let ?chunks = "pn_splitTextIntoChunks t n"
  obtain ws l where wl: "wordsB_loop [] 0 ?chunks = (ws, l)" by fastforce
  from wordsB_loop_spec [OF wl] have ws: "ws = words_B t n" by (simp add: words_B_def)
  note fits = longest_B_fits [OF "1.prems" wl, of mw]
  show ?case
  proof (cases "l \<le> mw \<or> n \<le> 1")
    case True
    have "encodeMimeWordB_loop t mw n = join (CRLF @ '' '') (words_B t n)"
      using True wl ws by (subst encodeMimeWordB_loop.simps) (simp add: Let_def)
    moreover have "words_fit (words_B t n) mw \<or> n = 1"
      using True fits "1.prems" by auto
    ultimately have "1 \<le> (ceil_half ^^ 0) n
     \<and> (\<forall>j<0. 1 < (ceil_half ^^ j) n \<and> \<not> words_fit (words_B t ((ceil_half ^^ j) n)) mw)
     \<and> encodeMimeWordB_loop t mw n = join (CRLF @ '' '') (words_B t ((ceil_half ^^ 0) n))
     \<and> (words_fit (words_B t ((ceil_half ^^ 0) n)) mw \<or> (ceil_half ^^ 0) n = 1)"
      using "1.prems" by simp
    then show ?thesis by (rule exI)
  next
    case False
    let ?n = "n div 2 + n mod 2"
    have eq: "encodeMimeWordB_loop t mw n = encodeMimeWordB_loop t mw ?n"
      using False wl by (subst encodeMimeWordB_loop.simps) (simp add: Let_def)
    have n1: "1 \<le> ?n" using False by presburger
    have here: "1 < n" "\<not> words_fit (words_B t n) mw" using False fits by auto
    from "1.IH" [OF refl refl wl [symmetric] False "1.prems"(1) n1]
    obtain k where k: "1 \<le> (ceil_half ^^ k) ?n"
      "\<forall>j<k. 1 < (ceil_half ^^ j) ?n \<and> \<not> words_fit (words_B t ((ceil_half ^^ j) ?n)) mw"
      "encodeMimeWordB_loop t mw ?n = join (CRLF @ '' '') (words_B t ((ceil_half ^^ k) ?n))"
      "words_fit (words_B t ((ceil_half ^^ k) ?n)) mw \<or> (ceil_half ^^ k) ?n = 1"
      by blast
    have shift: "(ceil_half ^^ Suc j) n = (ceil_half ^^ j) ?n" for j
      by (simp add: funpow_swap1 ceil_half_eq [of n])
    have earlier: "1 < (ceil_half ^^ j) n \<and> \<not> words_fit (words_B t ((ceil_half ^^ j) n)) mw"
      if "j < Suc k" for j
    proof (cases j)
      case 0
      with here show ?thesis by simp
    next
      case (Suc i)
      with that have "i < k" by simp
      with k(2) have "1 < (ceil_half ^^ i) ?n
          \<and> \<not> words_fit (words_B t ((ceil_half ^^ i) ?n)) mw" by blast
      then show ?thesis unfolding Suc shift .
    qed
    have "1 \<le> (ceil_half ^^ Suc k) n
     \<and> (\<forall>j<Suc k. 1 < (ceil_half ^^ j) n \<and> \<not> words_fit (words_B t ((ceil_half ^^ j) n)) mw)
     \<and> encodeMimeWordB_loop t mw n = join (CRLF @ '' '') (words_B t ((ceil_half ^^ Suc k) n))
     \<and> (words_fit (words_B t ((ceil_half ^^ Suc k) n)) mw \<or> (ceil_half ^^ Suc k) n = 1)"
      unfolding shift eq using k(1,3,4) earlier by blast
    then show ?thesis by (rule exI)
  qed
qed

text \<open>
  Claim C6.  For a non-empty string, \<open>encodeMimeWordQ\<close> and \<open>encodeMimeWordB\<close> return (the
  functions are total: the loop's chunk size decreases).  The chunk sizes tried are the
  size of the string and then, each time, the ceiling of the half of the size before.
  The result is the words of the chunks at the first size tried at which every word is
  at most \<open>max_word_size\<close> bytes long, or which is 1: every size tried before is above 1
  and has a word longer than \<open>max_word_size\<close>.  The words are joined with CRLF and a
  space; the chunks are not empty, not longer than the size, and make up the string; at
  the size 1 every chunk is one character, and its word is in the result whatever its
  length.
\<close>

theorem C6_encodeMimeWord:
  assumes "t \<noteq> []"
  shows "(\<exists>k n. n = (ceil_half ^^ k) (size_of t) \<and> 1 \<le> n
            \<and> (\<forall>j<k. 1 < (ceil_half ^^ j) (size_of t)
                  \<and> \<not> words_fit (words_Q t ((ceil_half ^^ j) (size_of t))) max_word_size)
            \<and> encodeMimeWordQ t max_word_size = join (CRLF @ '' '') (words_Q t n)
            \<and> (words_fit (words_Q t n) max_word_size
                 \<or> n = 1 \<and> list_all (\<lambda>c. length c = 1) (pn_splitTextIntoChunks t n))
            \<and> list_all (\<lambda>c. 1 \<le> length c \<and> int (length c) \<le> n) (pn_splitTextIntoChunks t n)
            \<and> concat (pn_splitTextIntoChunks t n) = t)
       \<and> (\<exists>k n. n = (ceil_half ^^ k) (size_of t) \<and> 1 \<le> n
            \<and> (\<forall>j<k. 1 < (ceil_half ^^ j) (size_of t)
                  \<and> \<not> words_fit (words_B t ((ceil_half ^^ j) (size_of t))) max_word_size)
            \<and> encodeMimeWordB t max_word_size = join (CRLF @ '' '') (words_B t n)
            \<and> (words_fit (words_B t n) max_word_size
                 \<or> n = 1 \<and> list_all (\<lambda>c. length c = 1) (pn_splitTextIntoChunks t n))
            \<and> list_all (\<lambda>c. 1 \<le> length c \<and> int (length c) \<le> n) (pn_splitTextIntoChunks t n)
            \<and> concat (pn_splitTextIntoChunks t n) = t)
       \<and> words_Q t n0 = map (\<lambda>chunk. ''=?utf-8?Q?'' @ encodeQuotedPrintable chunk @ ''?='')
                            (pn_splitTextIntoChunks t n0)
       \<and> words_B t n0 = map (\<lambda>chunk. ''=?utf-8?B?'' @ toBase64 (toUtf8 chunk) @ ''?='')
                            (pn_splitTextIntoChunks t n0)
       \<and> ceil_half n0 = n0 div 2 + n0 mod 2"
proof -
  have one: "1 \<le> size_of t" using assms by (cases t) (simp_all add: size_of_def)
  have q: "encodeMimeWordQ t max_word_size = encodeMimeWordQ_loop t max_word_size (size_of t)"
    and b: "encodeMimeWordB t max_word_size = encodeMimeWordB_loop t max_word_size (size_of t)"
    using assms by (simp_all add: encodeMimeWordQ_def encodeMimeWordB_def)
  from encodeMimeWordQ_loop_spec [OF assms one, of max_word_size]
  obtain k where k: "1 \<le> (ceil_half ^^ k) (size_of t)"
    "\<forall>j<k. 1 < (ceil_half ^^ j) (size_of t)
        \<and> \<not> words_fit (words_Q t ((ceil_half ^^ j) (size_of t))) max_word_size"
    "encodeMimeWordQ t max_word_size
       = join (CRLF @ '' '') (words_Q t ((ceil_half ^^ k) (size_of t)))"
    "words_fit (words_Q t ((ceil_half ^^ k) (size_of t))) max_word_size
       \<or> (ceil_half ^^ k) (size_of t) = 1"
    unfolding q by blast
  from k(4) chunks_of_one [of t]
  have "words_fit (words_Q t ((ceil_half ^^ k) (size_of t))) max_word_size
       \<or> (ceil_half ^^ k) (size_of t) = 1
          \<and> list_all (\<lambda>c. length c = 1)
                (pn_splitTextIntoChunks t ((ceil_half ^^ k) (size_of t)))"
    by auto
  with k(1,2,3) pn_splitTextIntoChunks_inv [OF k(1), of t]
  have partQ: "\<exists>k n. n = (ceil_half ^^ k) (size_of t) \<and> 1 \<le> n
            \<and> (\<forall>j<k. 1 < (ceil_half ^^ j) (size_of t)
                  \<and> \<not> words_fit (words_Q t ((ceil_half ^^ j) (size_of t))) max_word_size)
            \<and> encodeMimeWordQ t max_word_size = join (CRLF @ '' '') (words_Q t n)
            \<and> (words_fit (words_Q t n) max_word_size
                 \<or> n = 1 \<and> list_all (\<lambda>c. length c = 1) (pn_splitTextIntoChunks t n))
            \<and> list_all (\<lambda>c. 1 \<le> length c \<and> int (length c) \<le> n) (pn_splitTextIntoChunks t n)
            \<and> concat (pn_splitTextIntoChunks t n) = t"
    by blast
  from encodeMimeWordB_loop_spec [OF assms one, of max_word_size]
  obtain i where i: "1 \<le> (ceil_half ^^ i) (size_of t)"
    "\<forall>j<i. 1 < (ceil_half ^^ j) (size_of t)
        \<and> \<not> words_fit (words_B t ((ceil_half ^^ j) (size_of t))) max_word_size"
    "encodeMimeWordB t max_word_size
       = join (CRLF @ '' '') (words_B t ((ceil_half ^^ i) (size_of t)))"
    "words_fit (words_B t ((ceil_half ^^ i) (size_of t))) max_word_size
       \<or> (ceil_half ^^ i) (size_of t) = 1"
    unfolding b by blast
  from i(4) chunks_of_one [of t]
  have "words_fit (words_B t ((ceil_half ^^ i) (size_of t))) max_word_size
       \<or> (ceil_half ^^ i) (size_of t) = 1
          \<and> list_all (\<lambda>c. length c = 1)
                (pn_splitTextIntoChunks t ((ceil_half ^^ i) (size_of t)))"
    by auto
  with i(1,2,3) pn_splitTextIntoChunks_inv [OF i(1), of t]
  have partB: "\<exists>k n. n = (ceil_half ^^ k) (size_of t) \<and> 1 \<le> n
            \<and> (\<forall>j<k. 1 < (ceil_half ^^ j) (size_of t)
                  \<and> \<not> words_fit (words_B t ((ceil_half ^^ j) (size_of t))) max_word_size)
            \<and> encodeMimeWordB t max_word_size = join (CRLF @ '' '') (words_B t n)
            \<and> (words_fit (words_B t n) max_word_size
                 \<or> n = 1 \<and> list_all (\<lambda>c. length c = 1) (pn_splitTextIntoChunks t n))
            \<and> list_all (\<lambda>c. 1 \<le> length c \<and> int (length c) \<le> n) (pn_splitTextIntoChunks t n)
            \<and> concat (pn_splitTextIntoChunks t n) = t"
    by blast
  have "words_Q t n0 = map (\<lambda>chunk. ''=?utf-8?Q?'' @ encodeQuotedPrintable chunk @ ''?='')
                            (pn_splitTextIntoChunks t n0)"
    and "words_B t n0 = map (\<lambda>chunk. ''=?utf-8?B?'' @ toBase64 (toUtf8 chunk) @ ''?='')
                            (pn_splitTextIntoChunks t n0)"
    by (simp_all add: words_Q_def words_B_def mime_word_Q_def mime_word_B_def)
  with partQ partB ceil_half_eq [of n0] show ?thesis by (intro conjI)
qed

lemma encodeMimeWordQ_Cafe:
  "encodeMimeWordQ [0x43, 0x61, 0x66, 0xE9] 60 = ''=?utf-8?Q?Caf=C3=A9?=''"
  by (simp add: encodeMimeWordQ_def encodeMimeWordQ_loop.simps pn_splitTextIntoChunks_def
      size_of_def Let_def encodeQuotedPrintable_units qp_unit_def is_alnum_byte_def
      upper_hex_digit_def utf8_of_codepoint_def isHighSurrogate_def isLowSurrogate_def
      char_of_eq_iff)

lemma words_Q_Cafe:
  "words_Q [0x43, 0x61, 0x66, 0xE9] 4 = [''=?utf-8?Q?Caf=C3=A9?='']"
  "words_Q [0x43, 0x61, 0x66, 0xE9] 2 = [''=?utf-8?Q?Ca?='', ''=?utf-8?Q?f=C3=A9?='']"
  by (simp_all add: words_Q_def mime_word_Q_def pn_splitTextIntoChunks_def
      size_of_def Let_def encodeQuotedPrintable_units qp_unit_def is_alnum_byte_def
      upper_hex_digit_def utf8_of_codepoint_def isHighSurrogate_def isLowSurrogate_def
      char_of_eq_iff)

lemma encodeMimeWordQ_Cafe_folded:
  "encodeMimeWordQ [0x43, 0x61, 0x66, 0xE9] 19
     = ''=?utf-8?Q?Ca?='' @ CRLF @ '' =?utf-8?Q?f=C3=A9?=''"
proof -
  have chunks: "pn_splitTextIntoChunks [0x43, 0x61, 0x66, 0xE9] 4 = [[0x43, 0x61, 0x66, 0xE9]]"
    "pn_splitTextIntoChunks [0x43, 0x61, 0x66, 0xE9] 2 = [[0x43, 0x61], [0x66, 0xE9]]"
    by (simp_all add: pn_splitTextIntoChunks_def size_of_def Let_def)
  have words: "wordsQ_loop [] 0 [[0x43, 0x61, 0x66, 0xE9]] = ([''=?utf-8?Q?Caf=C3=A9?=''], 21)"
    "wordsQ_loop [] 0 [[0x43, 0x61], [0x66, 0xE9]]
       = ([''=?utf-8?Q?Ca?='', ''=?utf-8?Q?f=C3=A9?=''], 19)"
    by (simp_all add: size_of_def Let_def encodeQuotedPrintable_units qp_unit_def
        is_alnum_byte_def upper_hex_digit_def utf8_of_codepoint_def isHighSurrogate_def
        isLowSurrogate_def char_of_eq_iff)
  have "encodeMimeWordQ [0x43, 0x61, 0x66, 0xE9] 19
      = encodeMimeWordQ_loop [0x43, 0x61, 0x66, 0xE9] 19 4"
    by (simp add: encodeMimeWordQ_def size_of_def)
  also have "\<dots> = encodeMimeWordQ_loop [0x43, 0x61, 0x66, 0xE9] 19 2"
    by (subst encodeMimeWordQ_loop.simps) (simp add: chunks words del: wordsQ_loop.simps)
  also have "\<dots> = ''=?utf-8?Q?Ca?='' @ CRLF @ '' =?utf-8?Q?f=C3=A9?=''"
    by (subst encodeMimeWordQ_loop.simps) (simp add: chunks words CRLF_def del: wordsQ_loop.simps)
  finally show ?thesis .
qed

theorem C6_encodeMimeWord_witness:
  "([0x43, 0x61, 0x66, 0xE9] :: QString) \<noteq> []
   \<and> encodeMimeWordQ [0x43, 0x61, 0x66, 0xE9] 60 = ''=?utf-8?Q?Caf=C3=A9?=''
   \<and> encodeMimeWordQ [0x43, 0x61, 0x66, 0xE9] 19
        = ''=?utf-8?Q?Ca?='' @ CRLF @ '' =?utf-8?Q?f=C3=A9?=''
   \<and> ceil_half 4 = 2
   \<and> \<not> words_fit (words_Q [0x43, 0x61, 0x66, 0xE9] 4) 19
   \<and> words_fit (words_Q [0x43, 0x61, 0x66, 0xE9] 2) 19
   \<and> (\<exists>k n. n = (ceil_half ^^ k) 4 \<and> 1 \<le> n
         \<and> (\<forall>j<k. 1 < (ceil_half ^^ j) 4
               \<and> \<not> words_fit (words_Q [0x43, 0x61, 0x66, 0xE9] ((ceil_half ^^ j) 4)) 19)
         \<and> ''=?utf-8?Q?Ca?='' @ CRLF @ '' =?utf-8?Q?f=C3=A9?=''
             = join (CRLF @ '' '') (words_Q [0x43, 0x61, 0x66, 0xE9] n)
         \<and> words_fit (words_Q [0x43, 0x61, 0x66, 0xE9] n) 19)
   \<and> (\<exists>k n. n = (ceil_half ^^ k) 4 \<and> 1 \<le> n
         \<and> encodeMimeWordB [0x43, 0x61, 0x66, 0xE9] 60
             = join (CRLF @ '' '') (words_B [0x43, 0x61, 0x66, 0xE9] n))"
proof -
  have ne: "([0x43, 0x61, 0x66, 0xE9] :: QString) \<noteq> []" by simp
  have sz: "size_of ([0x43, 0x61, 0x66, 0xE9] :: QString) = 4" by (simp add: size_of_def)
  have fit: "\<not> words_fit (words_Q [0x43, 0x61, 0x66, 0xE9] 4) 19"
    "words_fit (words_Q [0x43, 0x61, 0x66, 0xE9] 2) 19"
    by (simp_all add: words_Q_Cafe words_fit_def size_of_def)
  have half: "ceil_half 4 = 2" by (simp add: ceil_half_eq)
  from C6_encodeMimeWord [OF ne, of 19, THEN conjunct1, unfolded sz]
  obtain k n where kn: "n = (ceil_half ^^ k) 4" "1 \<le> n"
    "\<forall>j<k. 1 < (ceil_half ^^ j) 4
             \<and> \<not> words_fit (words_Q [0x43, 0x61, 0x66, 0xE9] ((ceil_half ^^ j) 4)) 19"
    "encodeMimeWordQ [0x43, 0x61, 0x66, 0xE9] 19
       = join (CRLF @ '' '') (words_Q [0x43, 0x61, 0x66, 0xE9] n)"
    "words_fit (words_Q [0x43, 0x61, 0x66, 0xE9] n) 19
       \<or> n = 1 \<and> list_all (\<lambda>c. length c = 1)
                     (pn_splitTextIntoChunks [0x43, 0x61, 0x66, 0xE9] n)"
    by (elim exE conjE)
  have "k \<le> 1"
  proof (rule ccontr)
    assume "\<not> k \<le> 1"
    then have "1 < k" by simp
    with kn(3) have "\<not> words_fit (words_Q [0x43, 0x61, 0x66, 0xE9] ((ceil_half ^^ 1) 4)) 19"
      by blast
    with fit(2) half show False by simp
  qed
  moreover have "k \<noteq> 0"
  proof
    assume "k = 0"
    with kn(1,5) fit(1) show False by simp
  qed
  ultimately have "k = 1" by simp
  with kn(1) half have two: "n = 2" by simp
  have joined: "''=?utf-8?Q?Ca?='' @ CRLF @ '' =?utf-8?Q?f=C3=A9?=''
      = join (CRLF @ '' '') (words_Q [0x43, 0x61, 0x66, 0xE9] n)"
    using kn(4) unfolding encodeMimeWordQ_Cafe_folded .
  have fits: "words_fit (words_Q [0x43, 0x61, 0x66, 0xE9] n) 19"
    using fit(2) two by simp
  from kn(1,2,3) joined fits
  have first: "\<exists>k n. n = (ceil_half ^^ k) 4 \<and> 1 \<le> n
         \<and> (\<forall>j<k. 1 < (ceil_half ^^ j) 4
               \<and> \<not> words_fit (words_Q [0x43, 0x61, 0x66, 0xE9] ((ceil_half ^^ j) 4)) 19)
         \<and> ''=?utf-8?Q?Ca?='' @ CRLF @ '' =?utf-8?Q?f=C3=A9?=''
             = join (CRLF @ '' '') (words_Q [0x43, 0x61, 0x66, 0xE9] n)
         \<and> words_fit (words_Q [0x43, 0x61, 0x66, 0xE9] n) 19"
    by (intro exI conjI)
  from C6_encodeMimeWord [OF ne, of 60, THEN conjunct2, THEN conjunct1, unfolded sz]
  obtain i m where "m = (ceil_half ^^ i) 4" "1 \<le> m"
    "encodeMimeWordB [0x43, 0x61, 0x66, 0xE9] 60
       = join (CRLF @ '' '') (words_B [0x43, 0x61, 0x66, 0xE9] m)"
    by (elim exE conjE)
  then have second: "\<exists>k n. n = (ceil_half ^^ k) 4 \<and> 1 \<le> n
         \<and> encodeMimeWordB [0x43, 0x61, 0x66, 0xE9] 60
             = join (CRLF @ '' '') (words_B [0x43, 0x61, 0x66, 0xE9] n)"
    by (intro exI conjI)
  from ne encodeMimeWordQ_Cafe encodeMimeWordQ_Cafe_folded half fit first second
  show ?thesis by (intro conjI)
qed


section \<open>Verification: MIME parts and messages\<close>

lemma fst_and_then: "fst (and_then f g st) = (fst (f st) \<and> fst (g (snd (f st))))"
  by (simp add: and_then_def split: prod.splits)

lemma writeDataToDev_buffer:
  "dev_write env = buffer_write \<Longrightarrow>
     writeDataToDev env data st = (True, st\<lparr>device := device st @ data\<rparr>)"
  by (simp add: writeDataToDev_def buffer_write_def)

lemma writeStdHeadersToDev_buffer:
  "dev_write env = buffer_write \<Longrightarrow>
     fst (writeStdHeadersToDev env part boundary st) = (contentType part \<noteq> [])"
  by (simp add: writeStdHeadersToDev_def Let_def fst_and_then writeDataToDev_buffer)

lemma MimeText_writeToDev_buffer:
  "dev_write env = buffer_write \<Longrightarrow>
     fst (MimeText_writeToDev env part t st) = (t \<noteq> [] \<and> contentType part \<noteq> [])"
  by (simp add: MimeText_writeToDev_def fst_and_then writeDataToDev_buffer
      writeStdHeadersToDev_buffer)

lemma MimeHtml_writeToDev_buffer:
  "dev_write env = buffer_write \<Longrightarrow>
     fst (MimeHtml_writeToDev env part t st) = (t \<noteq> [] \<and> contentType part \<noteq> [])"
  by (simp add: MimeHtml_writeToDev_def fst_and_then writeDataToDev_buffer
      writeStdHeadersToDev_buffer)

lemma MimeFile_writeToDev_buffer:
  "dev_write env = buffer_write \<Longrightarrow>
     fst (MimeFile_writeToDev env part c d st)
       = (contentName part \<noteq> [] \<and> c \<noteq> [] \<and> contentType part \<noteq> [])"
  by (auto simp add: MimeFile_writeToDev_def Let_def fst_and_then writeDataToDev_buffer
      writeStdHeadersToDev_buffer)

lemma part_serialisable_multi:
  "part_serialisable (MimeMultiPartMixed part ps) =
     (ps \<noteq> [] \<and> (if size_of ps = 1 then part_serialisable (hd ps)
                  else contentType part \<noteq> [] \<and> parts_serialisable ps))"
proof (cases ps)
  case Nil
  then show ?thesis by simp
next
  case (Cons p qs)
  then show ?thesis by (cases qs) (simp_all add: size_of_def)
qed

lemma fst_case_prod_if:
  "fst (case r of (ok, st1) \<Rightarrow> if \<not> ok then (False, st1) else g st1) = (fst r \<and> fst (g (snd r)))"
  by (cases r) simp

lemma writeToDev_buffer:
  "dev_write env = buffer_write \<Longrightarrow> fst (writeToDev env p st) = part_serialisable p"
  "dev_write env = buffer_write \<Longrightarrow> fst (writeParts env b ps st) = parts_serialisable ps"
proof (induction env p st and env b ps st rule: writeToDev_writeParts.induct)
  case (1 env part t st)
  then show ?case by (simp add: MimeText_writeToDev_buffer)
next
  case (2 env part html st)
  then show ?case by (simp add: MimeHtml_writeToDev_buffer)
next
  case (3 env part fileContent disposition st)
  then show ?case by (simp add: MimeFile_writeToDev_buffer)
next
  case (4 env part parts st)
  show ?case
  proof (cases "parts = []")
    case True
    then show ?thesis by simp
  next
    case ne: False
    show ?thesis
    proof (cases "size_of parts = 1")
      case True
      with ne "4.IH"(1) "4.prems" show ?thesis
        by (simp add: part_serialisable_multi)
    next
      case False
      let ?b = "toHex (createUuid env (uuid_calls st))"
      let ?st0 = "st\<lparr>uuid_calls := Suc (uuid_calls st)\<rparr>"
      obtain ok1 st1 where h: "writeStdHeadersToDev env part ?b ?st0 = (ok1, st1)" by fastforce
      have ok1: "ok1 = (contentType part \<noteq> [])"
        using writeStdHeadersToDev_buffer [OF "4.prems", of part ?b ?st0] h by simp
      show ?thesis
      proof (cases ok1)
        case False
        with ne \<open>size_of parts \<noteq> 1\<close> h ok1 show ?thesis
          by (simp add: part_serialisable_multi Let_def)
      next
        case True
        let ?st2 = "st1\<lparr>device := device st1 @ CRLF\<rparr>"
        have w: "writeDataToDev env CRLF st1 = (True, ?st2)"
          by (rule writeDataToDev_buffer [OF "4.prems"])
        have "fst (writeParts env (''--'' @ ?b @ CRLF) parts ?st2) = parts_serialisable parts"
          using "4.IH"(2) [OF ne \<open>size_of parts \<noteq> 1\<close> refl refl refl refl h [symmetric] _ w [symmetric]]
            True "4.prems" by simp
        with ne \<open>size_of parts \<noteq> 1\<close> h ok1 True w show ?thesis
          by (simp add: part_serialisable_multi Let_def fst_case_prod_if
              writeDataToDev_buffer [OF "4.prems"])
      qed
    qed
  qed
next
  case (5 env boundaryPrefix st)
  then show ?case by simp
next
  case (6 env boundaryPrefix part rest st)
  let ?st1 = "st\<lparr>device := device st @ boundaryPrefix\<rparr>"
  have w: "writeDataToDev env boundaryPrefix st = (True, ?st1)"
    by (rule writeDataToDev_buffer [OF "6.prems"])
  have p: "fst (writeToDev env part ?st1) = part_serialisable part"
    using "6.IH"(1) [OF w [symmetric]] "6.prems" by simp
  obtain ok2 st2 where h: "writeToDev env part ?st1 = (ok2, st2)" by fastforce
  show ?case
  proof (cases ok2)
    case False
    with w h p show ?thesis by simp
  next
    case True
    have "fst (writeParts env boundaryPrefix rest st2) = parts_serialisable rest"
      using "6.IH"(2) [OF w [symmetric] _ h [symmetric]] True "6.prems" by simp
    with w h p True show ?thesis by simp
  qed
qed

lemma body_is_first_dropBody: "body_is_first m \<Longrightarrow> body_is_first (dropBody m)"
  by (simp add: body_is_first_def dropBody_def)

lemma dropBody_None: "d_messageBody (dropBody m) = None"
  by (simp add: dropBody_def)

lemma built_body_is_first: "built m \<Longrightarrow> body_is_first m"
proof (induction rule: built.induct)
  case built_new
  show ?case by (simp add: body_is_first_def newMimeMessage_def)
next
  case (built_bodyText m t)
  then show ?case
    by (simp add: body_is_first_def setMessageBodyText_def Let_def dropBody_None newMimeText_def)
next
  case (built_bodyHtml m t)
  then show ?case
    by (simp add: body_is_first_def setMessageBodyHtml_def Let_def dropBody_None newMimeHtml_def)
next
  case (built_addPart m p)
  then show ?case
    by (auto simp: body_is_first_def addMimePart_def split: option.splits)
qed (auto simp: body_is_first_def setSenderAddress_def setReplyToAddress_def
      setToRecipients_def addToRecipient_def setCcRecipients_def addCcRecipient_def
      setMessageSubject_def split: option.splits)

lemma valid_body_serialisable:
  assumes "body_is_first m" and "MimeMessage_isValid m"
  shows "d_multiPart m \<noteq> [] \<and> part_serialisable (hd (d_multiPart m))"
proof -
  from assms(2) have "messageBodyText m \<noteq> [] \<or> messageBodyHtml m \<noteq> []"
    by (simp add: MimeMessage_isValid_def split: if_splits)
  then obtain b where b: "d_messageBody m = Some b"
    by (cases "d_messageBody m") (auto simp: messageBodyText_def messageBodyHtml_def)
  with assms(1) have ne: "d_multiPart m \<noteq> []" and hd: "hd (d_multiPart m) = b"
    and shape: "case b of MimeText part t \<Rightarrow> t \<noteq> [] \<and> b = newMimeText t
                 | MimeHtml part t \<Rightarrow> t \<noteq> [] \<and> b = newMimeHtml t | _ \<Rightarrow> False"
    by (simp_all add: body_is_first_def)
  from shape have "part_serialisable b"
    by (cases b) (auto simp: newMimeText_def newMimeHtml_def newMimePart_def)
  with ne hd show ?thesis by simp
qed

lemma ends_with_dot_terminator_append:
  "ends_with_dot_terminator (bs @ CRLF @ ''.'' @ CRLF)"
  by (simp add: ends_with_dot_terminator_def CRLF_def)

lemma MimeMessage_writeToDev_buffer:
  assumes env: "dev_write env = buffer_write"
    and inv: "body_is_first m" and valid: "MimeMessage_isValid m"
  shows "fst (MimeMessage_writeToDev env m st) = parts_serialisable (tl (d_multiPart m))"
    and "fst (MimeMessage_writeToDev env m st) \<Longrightarrow>
         ends_with_dot_terminator (device (snd (MimeMessage_writeToDev env m st)))"
proof -
  from valid_body_serialisable [OF inv valid]
  obtain b rest where parts: "d_multiPart m = b # rest" and b: "part_serialisable b"
    by (cases "d_multiPart m") auto
  have multi: "part_serialisable (newMimeMultiPartMixed (d_multiPart m)) = parts_serialisable rest"
    unfolding parts using b
    by (cases rest) (simp_all add: newMimeMultiPartMixed_def newMimePart_def)
  show "fst (MimeMessage_writeToDev env m st) = parts_serialisable (tl (d_multiPart m))"
    using valid multi parts
    by (simp add: MimeMessage_writeToDev_def fst_and_then writeDataToDev_buffer [OF env]
        writeToDev_buffer(1) [OF env])
  show "ends_with_dot_terminator (device (snd (MimeMessage_writeToDev env m st)))"
    if "fst (MimeMessage_writeToDev env m st)"
    using that valid
    by (auto simp: MimeMessage_writeToDev_def and_then_def writeDataToDev_buffer [OF env]
        ends_with_dot_terminator_def CRLF_def split: prod.splits if_splits)
qed

text \<open>
  Claim C7.  A \<open>MimeMultiPartMixed\<close> whose only part is \<open>p\<close> serialises exactly as \<open>p\<close>
  does: the same result and the same state afterwards (the same bytes on the device, no
  boundary drawn), whatever the device; and an empty \<open>MimeMultiPartMixed\<close> fails, writing
  nothing.
\<close>

theorem C7_multipart_single_part:
  "writeToDev env (MimeMultiPartMixed part [p]) st = writeToDev env p st
   \<and> writeToDev env (MimeMultiPartMixed part []) st = (False, st)"
  by (simp add: size_of_def)

theorem C7_multipart_single_part_witness:
  "writeToDev example_env (newMimeMultiPartMixed [newMimeText (fromLatin1 ''hi'')]) example_state
     = writeToDev example_env (newMimeText (fromLatin1 ''hi'')) example_state
   \<and> writeToDev example_env (newMimeText (fromLatin1 ''hi'')) example_state
     = (True, \<lparr>device = ''Content-Type: text/plain;'' @ CRLF @ ''  charset=UTF-8'' @ CRLF
                 @ ''Content-Transfer-Encoding: quoted-printable'' @ CRLF @ CRLF
                 @ ''hi'' @ CRLF, uuid_calls = 0\<rparr>)"
proof -
  have enc: "encodeQuotedPrintable [104, 105] = ''hi''"
    unfolding encodeQuotedPrintable_units
    by (simp add: qp_unit_def is_alnum_byte_def utf8_of_codepoint_def
        isHighSurrogate_def isLowSurrogate_def char_of_eq_iff)
  have "writeToDev example_env (newMimeText (fromLatin1 ''hi'')) example_state
     = (True, \<lparr>device = ''Content-Type: text/plain;'' @ CRLF @ ''  charset=UTF-8'' @ CRLF
                 @ ''Content-Transfer-Encoding: quoted-printable'' @ CRLF @ CRLF
                 @ ''hi'' @ CRLF, uuid_calls = 0\<rparr>)"
    by (simp add: newMimeText_def newMimePart_def MimeText_writeToDev_def enc
        writeStdHeadersToDev_def and_then_def writeDataToDev_def example_env_def
        example_state_def buffer_write_def formatQuotedPrintableIntoLines_def MaxLineSize_def
        mid_def Let_def fromLatin1_def)
  with C7_multipart_single_part [of example_env "newMimePart ''multipart/mixed''"
      "newMimeText (fromLatin1 ''hi'')" example_state]
  show ?thesis by (simp add: newMimeMultiPartMixed_def)
qed

text \<open>
  Claim C1 (as amended).  For a message built through the interface of \<open>MimeMessage\<close>
  with \<open>isValid\<close> true, on a device that takes every write, \<open>writeToDev\<close> returns true
  exactly when every part added by \<open>addMimePart\<close> (the parts after the body) serialises;
  in particular when no part was added.  When it returns true the bytes on the device
  end with CR LF \<open>.\<close> CR LF.
\<close>

theorem C1_valid_message_writeToDev:
  assumes "dev_write env = buffer_write" and "built m" and "MimeMessage_isValid m"
  shows "fst (MimeMessage_writeToDev env m st) = parts_serialisable (tl (d_multiPart m))
    \<and> (fst (MimeMessage_writeToDev env m st) \<longrightarrow>
         ends_with_dot_terminator (device (snd (MimeMessage_writeToDev env m st))))"
  using MimeMessage_writeToDev_buffer [OF assms(1) built_body_is_first [OF assms(2)] assms(3)]
  by blast

lemma example_message_valid: "MimeMessage_isValid example_message"
  by (simp add: example_message_def MimeMessage_isValid_def setSenderAddress_def
      addToRecipient_def setMessageSubject_def setMessageBodyText_def dropBody_def
      newMimeMessage_def newEmailAddress_def EmailAddress_isValid_def EmailAddress_isEmpty_def
      messageBodyText_def newMimeText_def Let_def fromLatin1_def
      rx_email_hasMatch_def rx_email_upto_end_def rx_local_def rx_domain_def rx_alpha_def
      rx_digit_def qchar_in_def)

lemma isValid_addMimePart: "MimeMessage_isValid (addMimePart p m) = MimeMessage_isValid m"
  unfolding MimeMessage_isValid_def messageBodyText_def messageBodyHtml_def addMimePart_def
  by simp

lemma example_message_built: "built example_message"
  unfolding example_message_def by (intro built.intros)

lemma example_message_parts:
  "d_multiPart example_message = [newMimeText (fromLatin1 ''hi'')]"
  by (simp add: example_message_def setSenderAddress_def
      addToRecipient_def setMessageSubject_def setMessageBodyText_def dropBody_def
      newMimeMessage_def Let_def fromLatin1_def)

theorem C1_valid_message_writeToDev_witness:
  "dev_write example_env = buffer_write \<and> built example_message
   \<and> MimeMessage_isValid example_message
   \<and> fst (MimeMessage_writeToDev example_env example_message example_state)
   \<and> ends_with_dot_terminator
       (device (snd (MimeMessage_writeToDev example_env example_message example_state)))"
proof -
  have env: "dev_write example_env = buffer_write" by (simp add: example_env_def)
  from C1_valid_message_writeToDev [OF env example_message_built example_message_valid,
      of example_state]
  show ?thesis
    using env example_message_built example_message_valid
    by (simp add: example_message_parts)
qed

text \<open>
  Claim C1 as stated fails when a part added by \<open>addMimePart\<close> does not serialise:
  \<open>isValid\<close> looks at the addresses, the subject and the body only.  The valid example
  message with an empty text part added is still valid, and \<open>writeToDev\<close> returns false.
\<close>

theorem C1_counterexample:
  "dev_write example_env = buffer_write
   \<and> MimeMessage_isValid (addMimePart (newMimeText []) example_message)
   \<and> \<not> fst (MimeMessage_writeToDev example_env
              (addMimePart (newMimeText []) example_message) example_state)"
proof -
  let ?m = "addMimePart (newMimeText []) example_message"
  have env: "dev_write example_env = buffer_write" by (simp add: example_env_def)
  have valid: "MimeMessage_isValid ?m"
    using example_message_valid by (simp only: isValid_addMimePart)
  have inv: "body_is_first ?m"
    by (rule built_body_is_first) (intro built.intros example_message_built)
  have "d_multiPart ?m = [newMimeText (fromLatin1 ''hi''), newMimeText []]"
    by (simp add: addMimePart_def example_message_parts)
  then have "\<not> parts_serialisable (tl (d_multiPart ?m))"
    by (simp add: newMimeText_def)
  with MimeMessage_writeToDev_buffer(1) [OF env inv valid, of example_state] valid env
  show ?thesis by simp
qed


section \<open>Verification: the log handler\<close>

lemma marker_nonempty: "marker k \<noteq> []"
  by (simp add: marker_def fromLatin1_def)

lemma operator_percent_marker:
  "operator_percent h a =
     h\<lparr>msg := QString_replace (marker (index h + 1)) a (msg h), index := index h + 1\<rparr>"
  by (simp add: operator_percent_def marker_def Let_def)

lemma percent_chain_turn:
  "msg (percent_chain h args) = replace_in_turn (index h + 1) args (msg h)
   \<and> index (percent_chain h args) = index h + int (length args)"
  unfolding percent_chain_def
  by (induction args arbitrary: h) (simp_all add: operator_percent_marker)

lemma replace_loop_absent:
  "\<not> occurs_in m s \<Longrightarrow> replace_loop m a s = s"
  by (induction s) auto

lemma replace_loop_first:
  assumes "m \<noteq> []"
  shows "\<not> occurs_in m (pre @ butlast m) \<Longrightarrow>
     replace_loop m a (pre @ m @ post) = pre @ a @ replace_loop m a post"
proof (induction pre)
  case Nil
  from assms obtain c m' where m: "m = c # m'" by (cases m) auto
  have "replace_loop m a (m @ post) = a @ replace_loop m a (drop (length m) (m @ post))"
    unfolding m by simp
  then show ?case by simp
next
  case (Cons p pre)
  let ?front = "p # pre @ butlast m"
  from Cons.prems have no0: "take (length m) ?front \<noteq> m"
    and rest: "\<not> occurs_in m (pre @ butlast m)" by simp_all
  have split: "p # pre @ m @ post = ?front @ [last m] @ post"
    using assms by (simp add: append_butlast_last_id [symmetric] del: append_butlast_last_id)
  have "length m \<le> length ?front" by simp
  then have "take (length m) (?front @ [last m] @ post) = take (length m) ?front"
    by (simp only: take_append diff_is_0_eq [THEN iffD2] take_0 append_Nil2)
  then have "take (length m) (p # pre @ m @ post) = take (length m) ?front"
    unfolding split .
  with no0 have "replace_loop m a (p # pre @ m @ post) = p # replace_loop m a (pre @ m @ post)"
    by simp
  with Cons.IH [OF rest] show ?case by simp
qed

lemma QString_replace_absent:
  "\<not> occurs_in (marker k) s \<Longrightarrow> QString_replace (marker k) a s = s"
  by (simp add: QString_replace_def marker_nonempty replace_loop_absent)

lemma QString_replace_first:
  "\<not> occurs_in (marker k) (pre @ butlast (marker k)) \<Longrightarrow>
     QString_replace (marker k) a (pre @ marker k @ post)
       = pre @ a @ QString_replace (marker k) a post"
  by (simp add: QString_replace_def marker_nonempty replace_loop_first)

text \<open>
  Claim C9 (as amended).  Substitution is positional and applied argument by argument,
  in call order: the argument in turn replaces every occurrence of its marker \<open>%k\<close> in
  the message as it then stands.  One replacement is a single pass from left to right: a
  message without the marker is unchanged, and behind the first occurrence the pass goes
  on in the rest of the message, not in the text it has just put in.  (The text put in
  by an earlier argument is part of the message the later arguments replace in.)
\<close>

theorem C9_positional_substitution:
  "msg (percent_chain h args) = replace_in_turn (index h + 1) args (msg h)
   \<and> index (percent_chain h args) = index h + int (length args)
   \<and> operator_percent_cstr decode h c = operator_percent h (decode c)
   \<and> (\<not> occurs_in (marker k) s \<longrightarrow> QString_replace (marker k) a s = s)
   \<and> (\<not> occurs_in (marker k) (pre @ butlast (marker k)) \<longrightarrow>
        QString_replace (marker k) a (pre @ marker k @ post)
          = pre @ a @ QString_replace (marker k) a post)"
  using percent_chain_turn [of h args] QString_replace_absent [of k s a]
    QString_replace_first [of k pre a post]
  by (simp add: operator_percent_cstr_def operator_percent_def)

lemma marker_1: "marker 1 = [37, 49]"
  by (simp add: marker_def QString_number_def fromLatin1_def)

lemma marker_2: "marker 2 = [37, 50]"
  by (simp add: marker_def QString_number_def fromLatin1_def)

theorem C9_positional_substitution_witness:
  "msg (percent_chain (newRTLogHandler example_context Debug (fromLatin1 ''%1: %2''))
          [fromLatin1 ''C'', fromLatin1 ''EHLO''])
     = fromLatin1 ''C: EHLO''
   \<and> \<not> occurs_in (marker 2) (fromLatin1 ''C: '')
   \<and> QString_replace (marker 2) (fromLatin1 ''EHLO'') (fromLatin1 ''C: '') = fromLatin1 ''C: ''
   \<and> \<not> occurs_in (marker 1) ([] @ butlast (marker 1))
   \<and> QString_replace (marker 1) (fromLatin1 ''C'') ([] @ marker 1 @ fromLatin1 '': %2'')
       = [] @ fromLatin1 ''C'' @ QString_replace (marker 1) (fromLatin1 ''C'') (fromLatin1 '': %2'')"
proof -
  have a: "\<not> occurs_in (marker 2) (fromLatin1 ''C: '')"
    by (simp add: marker_2 fromLatin1_def)
  have b: "\<not> occurs_in (marker 1) ([] @ butlast (marker 1))"
    by (simp add: marker_1)
  have c: "replace_in_turn 1 [fromLatin1 ''C'', fromLatin1 ''EHLO''] (fromLatin1 ''%1: %2'')
      = fromLatin1 ''C: EHLO''"
    by (simp add: marker_1 marker_2 fromLatin1_def QString_replace_def)
  from C9_positional_substitution [where h = "newRTLogHandler example_context Debug (fromLatin1 ''%1: %2'')"
      and args = "[fromLatin1 ''C'', fromLatin1 ''EHLO'']" and k = 2 and s = "fromLatin1 ''C: ''"
      and a = "fromLatin1 ''EHLO''"]
    C9_positional_substitution [where k = 1 and a = "fromLatin1 ''C''" and pre = "[]"
      and post = "fromLatin1 '': %2''"]
  show ?thesis
    using a b c by (simp add: newRTLogHandler_def)
qed

text \<open>
  Claim C9 as stated fails: the replacement for a later argument reads the whole
  message, the text put in by an earlier argument included.  With the template
  \<open>%1 %2\<close> and the arguments \<open>%2\<close> and \<open>x\<close> the handler produces \<open>x x\<close>, where
  substitution in a single pass produces \<open>%2 x\<close>.
\<close>

theorem C9_counterexample:
  "msg (percent_chain (newRTLogHandler example_context Debug (fromLatin1 ''%1 %2''))
          [fromLatin1 ''%2'', fromLatin1 ''x''])
     = fromLatin1 ''x x''
   \<and> single_pass_substitute [fromLatin1 ''%2'', fromLatin1 ''x''] (fromLatin1 ''%1 %2'')
     = fromLatin1 ''%2 x''
   \<and> fromLatin1 ''x x'' \<noteq> fromLatin1 ''%2 x''"
proof (intro conjI)
  show "fromLatin1 ''x x'' \<noteq> fromLatin1 ''%2 x''" by (simp add: fromLatin1_def)
  have "replace_in_turn 1 [fromLatin1 ''%2'', fromLatin1 ''x''] (fromLatin1 ''%1 %2'')
      = fromLatin1 ''x x''"
    by (simp add: marker_1 marker_2 fromLatin1_def QString_replace_def)
  then show "msg (percent_chain (newRTLogHandler example_context Debug (fromLatin1 ''%1 %2''))
          [fromLatin1 ''%2'', fromLatin1 ''x'']) = fromLatin1 ''x x''"
    using percent_chain_turn [of "newRTLogHandler example_context Debug (fromLatin1 ''%1 %2'')"
        "[fromLatin1 ''%2'', fromLatin1 ''x'']"]
    by (simp add: newRTLogHandler_def)
  show "single_pass_substitute [fromLatin1 ''%2'', fromLatin1 ''x''] (fromLatin1 ''%1 %2'')
     = fromLatin1 ''%2 x''"
    by (simp add: fromLatin1_def is_digit_qchar_def number_of_digits_def Let_def)
qed


section \<open>Verification: the setters of the client\<close>

text \<open>
  Claim C3 (as amended).  Called on a connected client, the setters of the server host,
  the server port, the client host, the authentication method, the account user name,
  the account password and the three time-outs leave every member of the client as it
  was.  \<open>setSocketTrafficLogEnabled\<close> does not look at the status: on every client,
  connected or not, it sets \<open>logSocketTraffic\<close> to its argument, on or off, and changes
  nothing else.
\<close>

theorem C3_setters_ignored_when_connected:
  "(status d = ST_Connected \<longrightarrow>
      setServerHost host d = d \<and> setServerPort port d = d \<and> setClientHost chost d = d
      \<and> setAuthMethod method d = d \<and> setAccountUser user d = d
      \<and> setAccountPassword password d = d \<and> setConnectionTimeout msec1 d = d
      \<and> setResponseTimeout msec2 d = d \<and> setSendTimeout msec3 d = d)
   \<and> setSocketTrafficLogEnabled enabled d = d\<lparr>logSocketTraffic := enabled\<rparr>"
  by (simp add: setServerHost_def setServerPort_def setClientHost_def setAuthMethod_def
      setAccountUser_def setAccountPassword_def setConnectionTimeout_def
      setResponseTimeout_def setSendTimeout_def setSocketTrafficLogEnabled_def)

theorem C3_setters_ignored_when_connected_witness:
  "status example_connected = ST_Connected
   \<and> setServerHost (fromLatin1 ''mail.example.org'') example_connected = example_connected
   \<and> setServerPort 587 example_connected = example_connected
   \<and> setAccountUser (fromLatin1 ''user'') example_connected = example_connected
   \<and> setSendTimeout 1 example_connected = example_connected
   \<and> setSocketTrafficLogEnabled True example_connected
        = example_connected\<lparr>logSocketTraffic := True\<rparr>
   \<and> setSocketTrafficLogEnabled False (example_connected\<lparr>logSocketTraffic := True\<rparr>)
        = example_connected
   \<and> setSocketTrafficLogEnabled True (newPrivateData [])
        = (newPrivateData [])\<lparr>logSocketTraffic := True\<rparr>"
proof -
  have c: "status example_connected = ST_Connected"
    by (simp add: example_connected_def)
  have off: "example_connected\<lparr>logSocketTraffic := False\<rparr> = example_connected"
    by (simp add: example_connected_def newPrivateData_def)
  from C3_setters_ignored_when_connected [of example_connected
      "fromLatin1 ''mail.example.org''" 587 _ _ "fromLatin1 ''user''" _ _ _ 1 True]
    C3_setters_ignored_when_connected [of "example_connected\<lparr>logSocketTraffic := True\<rparr>"
      _ _ _ _ _ _ _ _ _ False]
    C3_setters_ignored_when_connected [of "newPrivateData []" _ _ _ _ _ _ _ _ _ True]
  show ?thesis using c off by simp
qed

text \<open>
  Claim C3 as stated fails for the socket traffic log: \<open>setSocketTrafficLogEnabled\<close>
  does not look at the status, and on a connected client it changes
  \<open>logSocketTraffic\<close>.
\<close>

theorem C3_counterexample:
  "status example_connected = ST_Connected
   \<and> setSocketTrafficLogEnabled True example_connected \<noteq> example_connected
   \<and> logSocketTraffic (setSocketTrafficLogEnabled True example_connected)
   \<and> \<not> logSocketTraffic example_connected"
  by (simp add: example_connected_def setSocketTrafficLogEnabled_def newPrivateData_def)

text \<open>
  Claim C10.  On a disconnected client \<open>setAccountUser\<close> and \<open>setAccountPassword\<close> store
  their argument and change nothing else, but for the authentication method: from
  \<open>AuthNone\<close> it becomes \<open>AuthPlain\<close>, and any other method stays.
\<close>

theorem C10_credentials_select_AuthPlain:
  assumes "status d = ST_Disconnected"
  shows "setAccountUser user d
           = d\<lparr>accountUsername := user,
               authMethod := (if authMethod d = AuthNone then AuthPlain else authMethod d)\<rparr>
    \<and> setAccountPassword password d
           = d\<lparr>accountPassword := password,
               authMethod := (if authMethod d = AuthNone then AuthPlain else authMethod d)\<rparr>
    \<and> authMethod (setAccountUser user d)
           = (if authMethod d = AuthNone then AuthPlain else authMethod d)
    \<and> authMethod (setAccountPassword password d)
           = (if authMethod d = AuthNone then AuthPlain else authMethod d)"
  using assms
  by (simp add: setAccountUser_def setAccountPassword_def Let_def)

theorem C10_credentials_select_AuthPlain_witness:
  "status (newPrivateData []) = ST_Disconnected
   \<and> authMethod (newPrivateData []) = AuthNone
   \<and> authMethod (setAccountUser (fromLatin1 ''user'') (newPrivateData [])) = AuthPlain
   \<and> authMethod (setAccountPassword (fromLatin1 ''secret'') (newPrivateData [])) = AuthPlain
   \<and> authMethod (setAccountUser (fromLatin1 ''user'')
         (setAuthMethod AuthCramMd5 (newPrivateData []))) = AuthCramMd5"
proof -
  have d: "status (newPrivateData []) = ST_Disconnected"
    and d': "status (setAuthMethod AuthCramMd5 (newPrivateData [])) = ST_Disconnected"
    by (simp_all add: newPrivateData_def setAuthMethod_def)
  from C10_credentials_select_AuthPlain [OF d, of "fromLatin1 ''user''" "fromLatin1 ''secret''"]
    C10_credentials_select_AuthPlain [OF d', of "fromLatin1 ''user''"]
  show ?thesis
    by (simp add: newPrivateData_def setAuthMethod_def)
qed

section \<open>Verification: the driver\<close>

lemma achievesI:
  "(\<And>w. P w \<Longrightarrow> \<exists>r w'. step w = Some (r, w') \<and> Q r w') \<Longrightarrow> achieves P step Q"
  by (simp add: achieves_def)

lemma achievesD:
  "achieves P step Q \<Longrightarrow> P w \<Longrightarrow> \<exists>r w'. step w = Some (r, w') \<and> Q r w'"
  by (simp add: achieves_def)

lemma achieves_weaken:
  "achieves P step Q \<Longrightarrow> (\<And>w. P' w \<Longrightarrow> P w) \<Longrightarrow> (\<And>r w. Q r w \<Longrightarrow> Q' r w)
     \<Longrightarrow> achieves P' step Q'"
  unfolding achieves_def by blast

lemma achieves_unless_ok:
  assumes "achieves P step (\<lambda>r. P1)"
    and "achieves P1 on_failure Q"
    and "achieves P1 rest Q"
  shows "achieves P (unless_ok step on_failure rest) Q"
proof (rule achievesI)
  fix w assume "P w"
  with assms(1) obtain ok w1 where s: "step w = Some (ok, w1)" and p1: "P1 w1"
    by (blast dest: achievesD)
  show "\<exists>r w'. unless_ok step on_failure rest w = Some (r, w') \<and> Q r w'"
  proof (cases ok)
    case True
    with s p1 assms(3) show ?thesis by (auto simp: unless_ok_def dest: achievesD)
  next
    case False
    with s p1 assms(2) show ?thesis by (auto simp: unless_ok_def dest: achievesD)
  qed
qed

lemma live_pn_fail [simp]: "live strict st (snd (pn_fail err w)) = live strict st w"
  by (simp add: live_def pn_fail_def)

lemma live_pn_logTraffic [simp]: "live strict st (pn_logTraffic env who data w) = live strict st w"
  by (simp add: live_def pn_logTraffic_def Let_def)

lemma live_socket: "live strict st w \<Longrightarrow> \<exists>s. socket w = Some s \<and> socket_ok strict s \<and> status w = st"
  by (auto simp: live_def split: option.splits)

lemma liveI: "status w = st \<Longrightarrow> socket w = Some s \<Longrightarrow> socket_ok strict s \<Longrightarrow> live strict st w"
  by (simp add: live_def)

lemma no_crosstalk_readLine: "socket_ok strict (snd (readLine s)) = socket_ok strict s"
  by (simp add: socket_ok_def no_crosstalk_def readLine_def Let_def)

lemma no_crosstalk_write:
  "socket_ok strict s \<Longrightarrow> \<not> canReadLine s \<Longrightarrow> socket_ok strict (socket_write data s)"
  by (auto simp: socket_ok_def no_crosstalk_def socket_write_def)

lemma no_crosstalk_close: "socket_ok strict (socket_close s) = socket_ok strict s"
  by (simp add: socket_ok_def no_crosstalk_def socket_close_def)

lemma no_crosstalk_waitForReadyRead: "socket_ok strict (snd (waitForReadyRead s)) = socket_ok strict s"
  by (auto simp: socket_ok_def no_crosstalk_def waitForReadyRead_def next_wait_def
      split: list.splits wait_outcome.splits)

lemma no_crosstalk_waitForConnected: "socket_ok strict (snd (waitForConnected s)) = socket_ok strict s"
  by (auto simp: socket_ok_def no_crosstalk_def waitForConnected_def next_wait_def
      split: list.splits wait_outcome.splits)

lemma no_crosstalk_waitForEncrypted: "socket_ok strict (snd (waitForEncrypted s)) = socket_ok strict s"
  by (auto simp: socket_ok_def no_crosstalk_def waitForEncrypted_def next_wait_def
      split: list.splits wait_outcome.splits)

text \<open>What \<open>readLine\<close> reads is the first whole line of the buffer.\<close>

lemma lines_from_first:
  "CHR 0x0A \<in> set buf \<Longrightarrow>
     lines_from cur buf
       = (cur @ takeWhile (\<lambda>c. c \<noteq> CHR 0x0A) buf @ [CHR 0x0A])
         # lines_from [] (drop 1 (drop (length (takeWhile (\<lambda>c. c \<noteq> CHR 0x0A) buf)) buf))"
  by (induction buf arbitrary: cur) auto

lemma lines_from_none: "CHR 0x0A \<notin> set buf \<Longrightarrow> lines_from cur buf = []"
  by (induction buf arbitrary: cur) auto

lemma dropWhile_upto:
  "x \<in> set xs \<Longrightarrow>
     dropWhile (\<lambda>c. c \<noteq> x) xs = x # drop 1 (dropWhile (\<lambda>c. c \<noteq> x) xs)"
  by (induction xs) auto

lemma readLine_first:
  assumes "canReadLine s"
  shows "buffered_lines (read_buffer s)
           = fst (readLine s) # buffered_lines (read_buffer (snd (readLine s)))"
    and "unfinished_line (read_buffer s) = unfinished_line (read_buffer (snd (readLine s)))"
proof -
  let ?buf = "read_buffer s"
  let ?line = "takeWhile (\<lambda>c. c \<noteq> CHR 0x0A) ?buf"
  have lf: "CHR 0x0A \<in> set ?buf" using assms by (simp add: canReadLine_def)
  have dw: "drop (length ?line) ?buf = dropWhile (\<lambda>c. c \<noteq> CHR 0x0A) ?buf"
    by (simp add: dropWhile_eq_drop)
  have hd: "dropWhile (\<lambda>c. c \<noteq> CHR 0x0A) ?buf
      = CHR 0x0A # drop 1 (dropWhile (\<lambda>c. c \<noteq> CHR 0x0A) ?buf)"
    using lf by (rule dropWhile_upto)
  have t1: "take 1 (drop (length ?line) ?buf) = [CHR 0x0A]"
    unfolding dw by (subst hd) simp
  have fst: "fst (readLine s) = ?line @ [CHR 0x0A]"
    using t1 by (simp add: readLine_def Let_def)
  have snd: "read_buffer (snd (readLine s)) = drop 1 (drop (length ?line) ?buf)"
    by (simp add: readLine_def Let_def)
  show first: "buffered_lines ?buf
           = fst (readLine s) # buffered_lines (read_buffer (snd (readLine s)))"
    unfolding buffered_lines_def fst snd using lines_from_first [OF lf, of "[]"] by simp
  have rest: "drop (length (fst (readLine s))) ?buf = read_buffer (snd (readLine s))"
    unfolding fst snd by simp
  have "drop (length (fst (readLine s)) + n) ?buf = drop n (read_buffer (snd (readLine s)))" for n
    unfolding rest [symmetric] by (simp add: add.commute)
  then show "unfinished_line ?buf = unfinished_line (read_buffer (snd (readLine s)))"
    unfolding unfinished_line_def first by simp
qed

lemma msg_line_arg:
  "QString_arg (fromLatin1 '' > msg-line: %1'') x [] = fromLatin1 '' > msg-line: '' @ x"
  by (simp add: fromLatin1_def)

lemma pn_isAllowedToSend_loop_result:
  "socket w = Some s \<Longrightarrow>
     pn_isAllowedToSend_loop env w
       = Some (w\<lparr>socket := Some (s\<lparr>read_buffer := unfinished_line (read_buffer s)\<rparr>),
                 log_sink := log_sink w
                   @ map (\<lambda>line. (Warning, fromLatin1 '' > msg-line: '' @ fromUtf8 env line))
                       (buffered_lines (read_buffer s))\<rparr>)"
proof (induction env w arbitrary: s rule: pn_isAllowedToSend_loop.induct)
  case (1 env w)
  show ?case
  proof (cases "canReadLine s")
    case False
    then have "buffered_lines (read_buffer s) = []"
      and "unfinished_line (read_buffer s) = read_buffer s"
      by (simp_all add: canReadLine_def buffered_lines_def unfinished_line_def lines_from_none)
    moreover have "w\<lparr>socket := Some s\<rparr> = w" using "1.prems" by (cases w) simp
    ultimately show ?thesis
      using False "1.prems" by (simp add: pn_isAllowedToSend_loop.simps [of env w])
  next
    case True
    obtain line s1 where rl: "readLine s = (line, s1)" by fastforce
    let ?w1 = "snd (pn_fail (QString_arg (fromLatin1 '' > msg-line: %1'') (fromUtf8 env line) [])
                  (w\<lparr>socket := Some s1\<rparr>))"
    have s1: "socket ?w1 = Some s1" by (simp add: pn_fail_def)
    have step: "pn_isAllowedToSend_loop env w = pn_isAllowedToSend_loop env ?w1"
      using True "1.prems" rl by (simp add: pn_isAllowedToSend_loop.simps [of env w])
    have lines: "buffered_lines (read_buffer s) = line # buffered_lines (read_buffer s1)"
      and tail: "unfinished_line (read_buffer s) = unfinished_line (read_buffer s1)"
      using readLine_first [OF True] rl by simp_all
    have s1': "s1\<lparr>read_buffer := unfinished_line (read_buffer s1)\<rparr>
        = s\<lparr>read_buffer := unfinished_line (read_buffer s1)\<rparr>"
      using rl by (auto simp: readLine_def Let_def)
    show ?thesis
      unfolding step "1.IH" [OF "1.prems" True rl [symmetric] s1] lines tail
      by (simp add: pn_fail_def msg_line_arg s1')
  qed
qed

lemma pn_isAllowedToSend_result:
  assumes "socket w = Some s"
  shows "pn_isAllowedToSend env w =
     (if canReadLine s
      then Some (False,
             w\<lparr>socket := Some (s\<lparr>read_buffer := unfinished_line (read_buffer s)\<rparr>),
               log_sink := log_sink w @ crosstalk_records env (read_buffer s)\<rparr>)
      else Some (True, w))"
proof (cases "canReadLine s")
  case False
  with assms show ?thesis by (simp add: pn_isAllowedToSend_def)
next
  case True
  let ?w0 = "snd (pn_fail (fromLatin1
       ''send fail, found unexpected data available to be read, was:'') w)"
  have "socket ?w0 = Some s" using assms by (simp add: pn_fail_def)
  from pn_isAllowedToSend_loop_result [OF this, of env] True assms
  show ?thesis
    by (simp add: pn_isAllowedToSend_def crosstalk_records_def pn_fail_def)
qed

lemma unfinished_no_line: "CHR 0x0A \<notin> set (unfinished_line buf)"
proof -
  have "CHR 0x0A \<notin> set (drop (length (concat (lines_from cur buf))) (cur @ buf))"
    if "CHR 0x0A \<notin> set cur" for cur
    using that
  proof (induction buf arbitrary: cur)
    case Nil
    then show ?case by simp
  next
    case (Cons c buf)
    show ?case
    proof (cases "c = CHR 0x0A")
      case True
      have "drop (length (concat (lines_from cur (c # buf)))) (cur @ c # buf)
          = drop (length (concat (lines_from [] buf))) ([] @ buf)"
        using True by simp
      with Cons.IH [of "[]"] show ?thesis by simp
    next
      case False
      with Cons.prems have "CHR 0x0A \<notin> set (cur @ [c])" by simp
      from Cons.IH [OF this] False show ?thesis by simp
    qed
  qed
  from this [of "[]"] show ?thesis by (simp add: unfinished_line_def buffered_lines_def)
qed

lemma no_crosstalk_read_buffer [simp]: "socket_ok strict (s\<lparr>read_buffer := b\<rparr>) = socket_ok strict s"
  by (simp add: socket_ok_def no_crosstalk_def)

lemma pn_sendMessage_data_blocked:
  assumes "socket w = Some s" and "canReadLine s"
  shows "pn_sendMessage_data env data w
     = Some (False,
         w\<lparr>socket := Some (s\<lparr>read_buffer := unfinished_line (read_buffer s)\<rparr>),
           log_sink := log_sink w @ crosstalk_records env (read_buffer s)\<rparr>)"
  using assms by (simp add: pn_sendMessage_data_def pn_isAllowedToSend_result [OF assms(1)])

lemma pn_sendMessage_msg_blocked:
  assumes "socket w = Some s" and "canReadLine s"
  shows "pn_sendMessage_msg env m w
     = Some (False,
         w\<lparr>socket := Some (s\<lparr>read_buffer := unfinished_line (read_buffer s)\<rparr>),
           log_sink := log_sink w @ crosstalk_records env (read_buffer s)\<rparr>)"
  using assms by (simp add: pn_sendMessage_msg_def pn_isAllowedToSend_result [OF assms(1)])

lemma achieves_pn_sendMessage_data:
  "achieves (live strict st) (pn_sendMessage_data env data) (\<lambda>r. live strict st)"
proof (rule achievesI)
  fix w assume "live strict st w"
  then obtain s where s: "socket w = Some s" and c: "socket_ok strict s" and st: "status w = st"
    by (blast dest: live_socket)
  show "\<exists>r w'. pn_sendMessage_data env data w = Some (r, w') \<and> live strict st w'"
  proof (cases "canReadLine s")
    case True
    from pn_sendMessage_data_blocked [OF s True, of env data] c st
    show ?thesis by (auto simp: live_def)
  next
    case False
    have "socket (pn_logTraffic env ''C'' data w) = Some s"
      using s by (simp add: socket_pn_logTraffic)
    moreover have "status (pn_logTraffic env ''C'' data w) = st"
      using st by (simp add: pn_logTraffic_def Let_def)
    ultimately show ?thesis
      using False s no_crosstalk_write [OF c False]
      by (auto simp: pn_sendMessage_data_def pn_isAllowedToSend_result [OF s] Let_def live_def)
  qed
qed

lemma achieves_pn_sendMessage_msg:
  "achieves (live strict st) (pn_sendMessage_msg env m) (\<lambda>r. live strict st)"
proof (rule achievesI)
  fix w assume "live strict st w"
  then obtain s where s: "socket w = Some s" and c: "socket_ok strict s" and st: "status w = st"
    by (blast dest: live_socket)
  show "\<exists>r w'. pn_sendMessage_msg env m w = Some (r, w') \<and> live strict st w'"
  proof (cases "canReadLine s")
    case True
    from pn_sendMessage_msg_blocked [OF s True, of env m] c st
    show ?thesis by (auto simp: live_def)
  next
    case False
    obtain written st1 where wr: "MimeMessage_writeToDev (buffer_env env) m
        \<lparr>device = [], uuid_calls = uuids_drawn w\<rparr> = (written, st1)" by fastforce
    let ?w2 = "w\<lparr>uuids_drawn := uuid_calls st1\<rparr>"
    let ?w3 = "pn_logTraffic env ''C'' (toBase64 (device st1)) ?w2"
    have "socket ?w3 = Some s" using s by (simp add: socket_pn_logTraffic)
    moreover have "status ?w3 = st" using st by (simp add: pn_logTraffic_def Let_def)
    ultimately show ?thesis
      using False s c st wr no_crosstalk_write [OF c False]
      by (cases written)
         (auto simp: pn_sendMessage_msg_def pn_isAllowedToSend_result [OF s] Let_def live_def)
  qed
qed

lemma live_set_socket:
  "live strict st w \<Longrightarrow> socket_ok strict s1 \<Longrightarrow> live strict st (w\<lparr>socket := Some s1\<rparr>)"
  by (simp add: live_def)

lemma pn_waitForResponse_lines_live:
  "live strict st w \<Longrightarrow> \<exists>r w'. pn_waitForResponse_lines env expectedCode w = Some (r, w') \<and> live strict st w'"
proof (induction env expectedCode w rule: pn_waitForResponse_lines.induct)
  case (1 env expectedCode w)
  from "1.prems" obtain s where s: "socket w = Some s" and c: "socket_ok strict s"
    by (blast dest: live_socket)
  show ?case
  proof (cases "canReadLine s")
    case False
    with s "1.prems" show ?thesis
      by (simp add: pn_waitForResponse_lines.simps [of env expectedCode w])
  next
    case True
    obtain raw s1 where rl: "readLine s = (raw, s1)" by fastforce
    have c1: "socket_ok strict s1" using no_crosstalk_readLine [of strict s] rl c by simp
    let ?line = "trimmed raw"
    let ?w1 = "pn_logTraffic env ''S'' ?line (w\<lparr>socket := Some s1\<rparr>)"
    have l1: "live strict st ?w1" using live_set_socket [OF "1.prems" c1] by simp
    show ?thesis
    proof (cases "mid ?line 3 1 = '' ''")
      case True
      with s \<open>canReadLine s\<close> rl l1 show ?thesis
        by (simp add: pn_waitForResponse_lines.simps [of env expectedCode w] Let_def)
    next
      case False
      with s \<open>canReadLine s\<close> rl
      have "pn_waitForResponse_lines env expectedCode w
          = pn_waitForResponse_lines env expectedCode ?w1"
        by (simp add: pn_waitForResponse_lines.simps [of env expectedCode w] Let_def)
      with "1.IH" [OF s \<open>canReadLine s\<close> rl [symmetric] refl refl refl refl False l1]
      show ?thesis by simp
    qed
  qed
qed

lemma pn_waitForResponse_loop_live:
  "live strict st w \<Longrightarrow> \<exists>r w'. pn_waitForResponse_loop env expectedCode w = Some (r, w') \<and> live strict st w'"
proof (induction env expectedCode w rule: pn_waitForResponse_loop.induct)
  case (1 env expectedCode w)
  from "1.prems" obtain s where s: "socket w = Some s" and c: "socket_ok strict s"
    by (blast dest: live_socket)
  obtain ready s1 where rr: "waitForReadyRead s = (ready, s1)" by fastforce
  have c1: "socket_ok strict s1" using no_crosstalk_waitForReadyRead [of strict s] rr c by simp
  have l1: "live strict st (w\<lparr>socket := Some s1\<rparr>)" by (rule live_set_socket [OF "1.prems" c1])
  show ?case
  proof (cases ready)
    case False
    with s rr l1 show ?thesis
      by (auto simp: pn_waitForResponse_loop.simps [of env expectedCode w])
  next
    case True
    from pn_waitForResponse_lines_live [OF l1, of env expectedCode]
    obtain r w1 where lines: "pn_waitForResponse_lines env expectedCode (w\<lparr>socket := Some s1\<rparr>)
        = Some (r, w1)" and l2: "live strict st w1" by blast
    show ?thesis
    proof (cases r)
      case (Returned ok body)
      with s rr True lines l2 show ?thesis
        by (simp add: pn_waitForResponse_loop.simps [of env expectedCode w])
    next
      case NoLineLeft
      with s rr True lines
      have "pn_waitForResponse_loop env expectedCode w
          = pn_waitForResponse_loop env expectedCode w1"
        by (simp add: pn_waitForResponse_loop.simps [of env expectedCode w])
      with "1.IH" [OF s rr [symmetric] _ lines _ NoLineLeft l2] True NoLineLeft
      show ?thesis by simp
    qed
  qed
qed

lemma achieves_pn_waitForResponse:
  "achieves (live strict st) (pn_waitForResponse env expectedCode) (\<lambda>r. live strict st)"
proof (rule achievesI)
  fix w assume "live strict st w"
  from pn_waitForResponse_loop_live [OF this, of env expectedCode]
  show "\<exists>r w'. pn_waitForResponse env expectedCode w = Some (r, w') \<and> live strict st w'"
    by (simp add: pn_waitForResponse_def)
qed

lemma achieves_pn_waitForResponse_code:
  "achieves (live strict st) (pn_waitForResponse_code env expectedCode) (\<lambda>r. live strict st)"
proof (rule achievesI)
  fix w assume "live strict st w"
  from achievesD [OF achieves_pn_waitForResponse this, of env expectedCode]
  show "\<exists>r w'. pn_waitForResponse_code env expectedCode w = Some (r, w') \<and> live strict st w'"
    by (auto simp: pn_waitForResponse_code_def)
qed

lemma achieves_pn_sendAndWaitFor:
  "achieves (live strict st) (pn_sendAndWaitFor env data expectedCode) (\<lambda>r. live strict st)"
proof (rule achievesI)
  fix w assume "live strict st w"
  from achievesD [OF achieves_pn_sendMessage_data this, of env data]
  obtain sent w1 where s: "pn_sendMessage_data env data w = Some (sent, w1)" and l: "live strict st w1"
    by blast
  from achievesD [OF achieves_pn_waitForResponse_code l, of env expectedCode] s l
  show "\<exists>r w'. pn_sendAndWaitFor env data expectedCode w = Some (r, w') \<and> live strict st w'"
    by (cases sent) (auto simp: pn_sendAndWaitFor_def)
qed

lemma achieves_pn_closeAndFail:
  "achieves (live strict st) pn_closeAndFail (\<lambda>r w'. \<not> r \<and> live strict ST_Disconnected w' \<and> shut w')"
  by (rule achievesI)
     (auto simp: pn_closeAndFail_def live_def shut_def socket_ok_def no_crosstalk_def socket_close_def
       split: option.splits)

lemma achieves_return: "Q r w \<Longrightarrow> achieves (\<lambda>w'. w' = w) (\<lambda>w'. Some (r, w')) Q"
  by (simp add: achieves_def)

lemma achieves_closeAndFail_outcome:
  "achieves (live strict st) pn_closeAndFail (closed_on_failure strict)"
  by (rule achieves_weaken [OF achieves_pn_closeAndFail]) (auto simp: closed_on_failure_def)

lemma achieves_step_or_close:
  assumes "achieves (live strict ST_Connected) step (\<lambda>r. live strict ST_Connected)"
    and "achieves (live strict ST_Connected) rest (closed_on_failure strict)"
  shows "achieves (live strict ST_Connected) (unless_ok step pn_closeAndFail rest)
           (closed_on_failure strict)"
  by (rule achieves_unless_ok [OF assms(1) achieves_closeAndFail_outcome assms(2)])

lemma achieves_rcpt_loop:
  "achieves (live strict ST_Connected) rest (closed_on_failure strict) \<Longrightarrow>
     achieves (live strict ST_Connected) (rcpt_loop env recipients rest) (closed_on_failure strict)"
  by (induction recipients) (simp_all add: achieves_step_or_close achieves_pn_sendAndWaitFor)

lemma achieves_sendMessage_steps:
  "achieves (live strict ST_Connected)
     (unless_ok
          (pn_sendAndWaitFor env
             (toLatin1 (QString_arg (fromLatin1 ''MAIL FROM:<%1>'')
                          (d_email (d_senderAddress m)) [])) ''250'')
          pn_closeAndFail
       (rcpt_loop env (d_toAddresses m)
       (rcpt_loop env (d_ccAddresses m)
       (unless_ok (pn_sendAndWaitFor env ''DATA'' ''354'') pn_closeAndFail
       (unless_ok (pn_sendMessage_msg env m)
          (\<lambda>w1. pn_closeAndFail
                   (snd (pn_fail (fromLatin1
                      ''unexpected error, unable to write msg to socket'') w1)))
       (unless_ok (pn_waitForResponse_code env ''250'') pn_closeAndFail
       (\<lambda>w1. Some (True, w1))))))))
     (closed_on_failure strict)"
proof -
  have fin: "achieves (live strict ST_Connected) (\<lambda>w1. Some (True, w1))
      (closed_on_failure strict)"
    by (auto simp: achieves_def closed_on_failure_def)
  have warn_close: "achieves (live strict ST_Connected)
      (\<lambda>w1. pn_closeAndFail (snd (pn_fail (fromLatin1
                      ''unexpected error, unable to write msg to socket'') w1)))
      (closed_on_failure strict)"
    using achieves_closeAndFail_outcome [of strict ST_Connected]
    by (simp add: achieves_def)
  show ?thesis
    by (intro achieves_step_or_close achieves_rcpt_loop achieves_pn_sendAndWaitFor
        achieves_pn_waitForResponse_code fin
        achieves_unless_ok [OF achieves_pn_sendMessage_msg warn_close])
qed

lemma sendMessage_invalid:
  "\<not> MimeMessage_isValid m \<Longrightarrow>
     sendMessage env m w = Some (False, warned ''unable to send, message is not valid'' w)"
  by (simp add: sendMessage_def pn_fail_def warned_def)

lemma sendMessage_not_connected:
  "MimeMessage_isValid m \<Longrightarrow> status w \<noteq> ST_Connected \<Longrightarrow>
     sendMessage env m w = Some (False, warned ''unable to send, client is not connected'' w)"
  by (simp add: sendMessage_def pn_fail_def warned_def)

lemma sendMessage_connected:
  assumes "MimeMessage_isValid m" and "live strict ST_Connected w"
  shows "\<exists>r w'. sendMessage env m w = Some (r, w') \<and> closed_on_failure strict r w'"
proof -
  from assms(2) have "status w = ST_Connected" by (simp add: live_def)
  with assms(1) achievesD [OF achieves_sendMessage_steps assms(2), of env m]
  show ?thesis by (simp add: sendMessage_def)
qed

lemma achieves_closeAndFail_connect:
  "achieves (live strict st) pn_closeAndFail (connect_outcome strict)"
  by (rule achieves_weaken [OF achieves_pn_closeAndFail]) (auto simp: connect_outcome_def)

lemma achieves_connect_step:
  assumes "achieves (live strict ST_Disconnected) step (\<lambda>r. live strict ST_Disconnected)"
    and "achieves (live strict ST_Disconnected) rest (connect_outcome strict)"
  shows "achieves (live strict ST_Disconnected) (unless_ok step pn_closeAndFail rest)
           (connect_outcome strict)"
  by (rule achieves_unless_ok [OF assms(1) achieves_closeAndFail_connect assms(2)])

lemma achieves_starttls_phase:
  assumes rest: "achieves (live strict ST_Disconnected) rest (connect_outcome strict)"
  shows "achieves (live strict ST_Disconnected) (starttls_phase env rest) (connect_outcome strict)"
proof -
  have upgrade: "achieves (live strict ST_Disconnected)
      (\<lambda>w1. case socket w1 of
                   None \<Rightarrow> None
                 | Some s \<Rightarrow>
                     (case waitForEncrypted s of
                        (encrypted, s1) \<Rightarrow>
                          if \<not> encrypted then
                            pn_closeAndFail
                              (snd (pn_fail
                                 (QString_arg
                                    (fromLatin1 ''unable to upgrade to encrypted mode, error: %1'')
                                    (error_string s1) [])
                                 (w1\<lparr>socket := Some s1\<rparr>)))
                          else
                            unless_ok
                              (pn_sendAndWaitFor env (''EHLO '' @ toLatin1 (clientHost w1)) ''250'')
                              pn_closeAndFail rest (w1\<lparr>socket := Some s1\<rparr>)))
      (connect_outcome strict)"
  proof (rule achievesI)
    fix w1 assume l: "live strict ST_Disconnected w1"
    then obtain s where s: "socket w1 = Some s" and c: "socket_ok strict s"
      by (blast dest: live_socket)
    obtain encrypted s1 where we: "waitForEncrypted s = (encrypted, s1)" by fastforce
    have "socket_ok strict s1" using no_crosstalk_waitForEncrypted [of strict s] we c by simp
    then have l1: "live strict ST_Disconnected (w1\<lparr>socket := Some s1\<rparr>)"
      by (rule live_set_socket [OF l])
    show "\<exists>r w'. (case socket w1 of
                   None \<Rightarrow> None
                 | Some s \<Rightarrow>
                     (case waitForEncrypted s of
                        (encrypted, s1) \<Rightarrow>
                          if \<not> encrypted then
                            pn_closeAndFail
                              (snd (pn_fail
                                 (QString_arg
                                    (fromLatin1 ''unable to upgrade to encrypted mode, error: %1'')
                                    (error_string s1) [])
                                 (w1\<lparr>socket := Some s1\<rparr>)))
                          else
                            unless_ok
                              (pn_sendAndWaitFor env (''EHLO '' @ toLatin1 (clientHost w1)) ''250'')
                              pn_closeAndFail rest (w1\<lparr>socket := Some s1\<rparr>))) = Some (r, w')
            \<and> connect_outcome strict r w'"
    proof (cases encrypted)
      case False
      let ?w2 = "snd (pn_fail
                   (QString_arg (fromLatin1 ''unable to upgrade to encrypted mode, error: %1'')
                      (error_string s1) [])
                   (w1\<lparr>socket := Some s1\<rparr>))"
      have "live strict ST_Disconnected ?w2" using l1 by simp
      from achievesD [OF achieves_closeAndFail_connect this] s we False
      show ?thesis by simp
    next
      case True
      from achievesD [OF achieves_connect_step [OF achieves_pn_sendAndWaitFor rest] l1,
          of env "''EHLO '' @ toLatin1 (clientHost w1)" "''250''"] s we True
      show ?thesis by simp
    qed
  qed
  show ?thesis
  proof (rule achievesI)
    fix w assume l: "live strict ST_Disconnected w"
    show "\<exists>r w'. starttls_phase env rest w = Some (r, w') \<and> connect_outcome strict r w'"
    proof (cases "connectionType w = TlsConnection")
      case True
      from achievesD [OF achieves_connect_step [OF achieves_pn_sendAndWaitFor upgrade] l,
          of env "''STARTTLS''" "''220''"] True
      show ?thesis by (simp add: starttls_phase_def)
    next
      case False
      with achievesD [OF rest l] show ?thesis by (simp add: starttls_phase_def)
    qed
  qed
qed

lemma achieves_auth_phase:
  assumes rest: "achieves (live strict ST_Disconnected) rest (connect_outcome strict)"
  shows "achieves (live strict ST_Disconnected) (auth_phase env rest) (connect_outcome strict)"
proof -
  have challenge: "achieves (live strict ST_Disconnected)
      (\<lambda>w1. case pn_waitForResponse env ''334'' w1 of
                   None \<Rightarrow> None
                 | Some ((ok, msgBody), w2) \<Rightarrow>
                     if \<not> ok then pn_closeAndFail w2
                     else
                       let authCode = hmac_md5 env (toLatin1 (accountPassword w2))
                                        (fromBase64 env msgBody);
                           authToken = toLatin1 (accountUsername w2) @ '' '' @ toHex authCode
                       in unless_ok (pn_sendAndWaitFor env (toBase64 authToken) ''235'')
                            pn_closeAndFail rest w2)
      (connect_outcome strict)"
  proof (rule achievesI)
    fix w1 assume "live strict ST_Disconnected w1"
    from achievesD [OF achieves_pn_waitForResponse this, of env "''334''"]
    obtain ok msgBody w2 where r: "pn_waitForResponse env ''334'' w1 = Some ((ok, msgBody), w2)"
      and l2: "live strict ST_Disconnected w2" by auto
    show "\<exists>r w'. (case pn_waitForResponse env ''334'' w1 of
                   None \<Rightarrow> None
                 | Some ((ok, msgBody), w2) \<Rightarrow>
                     if \<not> ok then pn_closeAndFail w2
                     else
                       let authCode = hmac_md5 env (toLatin1 (accountPassword w2))
                                        (fromBase64 env msgBody);
                           authToken = toLatin1 (accountUsername w2) @ '' '' @ toHex authCode
                       in unless_ok (pn_sendAndWaitFor env (toBase64 authToken) ''235'')
                            pn_closeAndFail rest w2) = Some (r, w')
            \<and> connect_outcome strict r w'"
    proof (cases ok)
      case False
      with r achievesD [OF achieves_closeAndFail_connect l2] show ?thesis by simp
    next
      case True
      with r achievesD [OF achieves_connect_step [OF achieves_pn_sendAndWaitFor rest] l2]
      show ?thesis by (simp add: Let_def)
    qed
  qed
  show ?thesis
  proof (rule achievesI)
    fix w assume l: "live strict ST_Disconnected w"
    consider (plain) "authMethod w = AuthPlain" | (login) "authMethod w = AuthLogin"
      | (cram) "authMethod w = AuthCramMd5" | (none) "authMethod w = AuthNone"
      by (cases "authMethod w") auto
    then show "\<exists>r w'. auth_phase env rest w = Some (r, w') \<and> connect_outcome strict r w'"
    proof cases
      case plain
      with achievesD [OF achieves_connect_step [OF achieves_pn_sendAndWaitFor rest] l]
      show ?thesis by (simp add: auth_phase_def Let_def)
    next
      case login
      have "achieves (live strict ST_Disconnected)
          (unless_ok (pn_sendAndWaitFor env ''AUTH LOGIN'' ''334'') pn_closeAndFail
          (unless_ok (pn_sendAndWaitFor env (toBase64 (toLatin1 (accountUsername w))) ''334'')
             pn_closeAndFail
          (unless_ok (pn_sendAndWaitFor env (toBase64 (toUtf8 (accountPassword w))) ''235'')
             pn_closeAndFail rest)))
          (connect_outcome strict)"
        by (intro achieves_connect_step achieves_pn_sendAndWaitFor rest)
      from achievesD [OF this l] login show ?thesis by (simp add: auth_phase_def)
    next
      case cram
      from achievesD [OF achieves_connect_step [OF achieves_pn_sendMessage_data challenge] l] cram
      show ?thesis by (simp add: auth_phase_def)
    next
      case none
      with achievesD [OF rest l] show ?thesis by (simp add: auth_phase_def)
    qed
  qed
qed

lemma connectToServer_live:
  assumes l: "live strict ST_Disconnected w"
  shows "\<exists>r w'. connectToServer env w = Some (r, w') \<and> connect_outcome strict r w'"
proof -
  from l obtain s where s: "socket w = Some s" and c: "socket_ok strict s"
    and st: "status w = ST_Disconnected" by (blast dest: live_socket)
  have fail: "\<exists>r w'. pn_fail err w1 = (r, w') \<and> connect_outcome strict r w'"
    if "live strict ST_Disconnected w1" for err w1
    using that by (auto simp: connect_outcome_def pn_fail_def live_def)
  obtain isConnected s1 where wc: "waitForConnected s = (isConnected, s1)" by fastforce
  have "socket_ok strict s1" using no_crosstalk_waitForConnected [of strict s] wc c by simp
  then have l1: "live strict ST_Disconnected (w\<lparr>socket := Some s1\<rparr>)"
    by (rule live_set_socket [OF l])
  have fin: "achieves (live strict ST_Disconnected)
      (\<lambda>w1. Some (True, w1\<lparr>status := ST_Connected\<rparr>)) (connect_outcome strict)"
    by (auto simp: achieves_def connect_outcome_def live_def)
  have steps: "achieves (live strict ST_Disconnected)
      (unless_ok (pn_waitForResponse_code env ''220'') pn_closeAndFail
      (unless_ok (pn_sendAndWaitFor env (''EHLO '' @ toLatin1 (clientHost w)) ''250'')
         pn_closeAndFail
      (starttls_phase env (auth_phase env (\<lambda>w1. Some (True, w1\<lparr>status := ST_Connected\<rparr>))))))
      (connect_outcome strict)"
    by (intro achieves_connect_step achieves_pn_waitForResponse_code achieves_pn_sendAndWaitFor
        achieves_starttls_phase achieves_auth_phase fin)
  show ?thesis
  proof (cases "serverHost w = [] \<or> serverPort w = 0 \<or> clientHost w = []
      \<or> (authMethod w \<noteq> AuthNone \<and> (accountUsername w = [] \<or> accountPassword w = []))")
    case True
    with s st show ?thesis
      by (auto simp: connectToServer_def fail [OF l])
  next
    case False
    show ?thesis
    proof (cases isConnected)
      case no: False
      with s st False wc show ?thesis
        by (auto simp: connectToServer_def fail [OF l1])
    next
      case True
      with s st False wc achievesD [OF steps l1] show ?thesis
        by (auto simp: connectToServer_def)
    qed
  qed
qed

lemma never_crosstalk_live:
  "never_crosstalk w \<Longrightarrow> socket w = Some s \<Longrightarrow> live True (status w) w"
  by (simp add: never_crosstalk_def live_def socket_ok_def)

lemma live_never_crosstalk: "live True st w \<Longrightarrow> never_crosstalk w"
  by (auto simp: never_crosstalk_def live_def socket_ok_def split: option.splits)

lemma never_crosstalk_pn_fail [simp]:
  "never_crosstalk (snd (pn_fail err w)) = never_crosstalk w"
  by (simp add: never_crosstalk_def pn_fail_def split: option.splits)

lemma never_crosstalk_warned [simp]: "never_crosstalk (warned err w) = never_crosstalk w"
  by (simp add: never_crosstalk_def warned_def split: option.splits)

lemma never_crosstalk_new:
  "never_crosstalk (PrivateData.extend (newPrivateData localHostName)
                      \<lparr>log_sink = records, uuids_drawn = n\<rparr>)"
  by (simp add: never_crosstalk_def newPrivateData_def PrivateData.defs)

lemma never_crosstalk_setConnectionType:
  assumes "never_crosstalk w" and "setConnectionType ctype script w = Some w'"
  shows "never_crosstalk w'"
  using assms
  by (auto simp: setConnectionType_def never_crosstalk_def Let_def no_crosstalk_def
      newQTcpSocket_def newQSslSocket_def split: if_splits)

lemma never_crosstalk_setConnectionType_verify:
  assumes "never_crosstalk w"
    and "setConnectionType_verify ctype vmode ign script w = Some w'"
  shows "never_crosstalk w'"
  using assms
  by (auto simp: setConnectionType_verify_def never_crosstalk_def Let_def no_crosstalk_def
      newQTcpSocket_def newQSslSocket_def split: if_splits)

lemma never_crosstalk_connectToServer:
  assumes n: "never_crosstalk w" and c: "connectToServer env w = Some (r, w')"
  shows "never_crosstalk w'"
proof (cases "status w = ST_Disconnected \<and> socket w \<noteq> None")
  case True
  then obtain s where s: "socket w = Some s" by auto
  from never_crosstalk_live [OF n s] True have "live True ST_Disconnected w" by simp
  from connectToServer_live [OF this, of env] c have "connect_outcome True r w'" by simp
  then show ?thesis by (auto simp: connect_outcome_def intro: live_never_crosstalk split: if_splits)
next
  case False
  with c obtain err where "pn_fail err w = (r, w')"
    by (cases "status w = ST_Disconnected") (auto simp: connectToServer_def)
  then have "w' = snd (pn_fail err w)" by simp
  with n show ?thesis by simp
qed

lemma never_crosstalk_sendMessage:
  assumes n: "never_crosstalk w" and c: "sendMessage env m w = Some (r, w')"
  shows "never_crosstalk w'"
proof (cases "MimeMessage_isValid m")
  case False
  from sendMessage_invalid [OF this, of env w] c n show ?thesis by auto
next
  case valid: True
  show ?thesis
  proof (cases "status w = ST_Connected")
    case False
    from sendMessage_not_connected [OF valid this, of env] c n show ?thesis by auto
  next
    case True
    with n obtain s where s: "socket w = Some s"
      by (auto simp: never_crosstalk_def split: option.splits)
    from never_crosstalk_live [OF n s] True have "live True ST_Connected w" by simp
    from sendMessage_connected [OF valid this, of env] c
    have "closed_on_failure True r w'" by simp
    then show ?thesis
      by (auto simp: closed_on_failure_def intro: live_never_crosstalk split: if_splits)
  qed
qed

lemma never_crosstalk_closeConnection:
  assumes n: "never_crosstalk w" and c: "closeConnection w = Some w'"
  shows "never_crosstalk w'"
proof (cases "status w = ST_Connected")
  case False
  with c n show ?thesis by (simp add: closeConnection_def)
next
  case True
  with n obtain s where s: "socket w = Some s"
    by (auto simp: never_crosstalk_def split: option.splits)
  from never_crosstalk_live [OF n s] True have "live True ST_Connected w" by simp
  from achievesD [OF achieves_pn_closeAndFail this] c True
  show ?thesis by (auto simp: closeConnection_def intro: live_never_crosstalk)
qed

lemma setters_keep_socket:
  fixes w :: Process
  shows "socket (setServerHost host w) = socket w" "status (setServerHost host w) = status w"
    "socket (setServerPort port w) = socket w" "status (setServerPort port w) = status w"
    "socket (setClientHost host w) = socket w" "status (setClientHost host w) = status w"
    "socket (setAccountUser user w) = socket w" "status (setAccountUser user w) = status w"
    "socket (setAccountPassword pw w) = socket w" "status (setAccountPassword pw w) = status w"
    "socket (setAuthMethod method w) = socket w" "status (setAuthMethod method w) = status w"
    "socket (setConnectionTimeout ms w) = socket w"
    "status (setConnectionTimeout ms w) = status w"
    "socket (setResponseTimeout ms w) = socket w" "status (setResponseTimeout ms w) = status w"
    "socket (setSendTimeout ms w) = socket w" "status (setSendTimeout ms w) = status w"
    "socket (setSocketTrafficLogEnabled on w) = socket w"
    "status (setSocketTrafficLogEnabled on w) = status w"
  by (simp_all add: setServerHost_def setServerPort_def setClientHost_def
      setAccountUser_def setAccountPassword_def setAuthMethod_def setConnectionTimeout_def
      setResponseTimeout_def setSendTimeout_def setSocketTrafficLogEnabled_def Let_def)

lemma reachable_never_crosstalk: "reachable env w \<Longrightarrow> never_crosstalk w"
proof (induction rule: reachable.induct)
  case (reach_new localHostName records n)
  show ?case by (rule never_crosstalk_new)
next
  case (reach_setConnectionType w ctype script w')
  from reach_setConnectionType.IH reach_setConnectionType.hyps(2) show ?case
    by (rule never_crosstalk_setConnectionType)
next
  case (reach_setConnectionType_verify w ctype vmode ign script w')
  from reach_setConnectionType_verify.IH reach_setConnectionType_verify.hyps(2) show ?case
    by (rule never_crosstalk_setConnectionType_verify)
next
  case (reach_connectToServer w r w')
  from reach_connectToServer.IH reach_connectToServer.hyps(2) show ?case
    by (rule never_crosstalk_connectToServer)
next
  case (reach_sendMessage w m r w')
  from reach_sendMessage.IH reach_sendMessage.hyps(2) show ?case
    by (rule never_crosstalk_sendMessage)
next
  case (reach_closeConnection w w')
  from reach_closeConnection.IH reach_closeConnection.hyps(2) show ?case
    by (rule never_crosstalk_closeConnection)
qed (simp_all add: never_crosstalk_def setters_keep_socket split: option.splits)

text \<open>
  Claim C2.  Both forms of \<open>pn_sendMessage\<close>, the only functions of the driver that write
  to the socket, do the same when a line can be read from the socket at the moment of
  the send: they return false; the socket they leave differs from the one they found
  only in the read buffer, from which the whole lines were taken, so nothing was
  written; and the log has got the heading and one record for every line that was
  buffered.  Consequently, in every process a program reaches through the public
  operations of the client, no write kept by the socket was made while a line could be
  read.
\<close>

theorem C2_no_write_while_line_buffered:
  "(socket w = Some s \<and> canReadLine s \<longrightarrow>
      pn_sendMessage_data env bytes w
        = Some (False,
            w\<lparr>socket := Some (s\<lparr>read_buffer := unfinished_line (read_buffer s)\<rparr>),
              log_sink := log_sink w @ crosstalk_records env (read_buffer s)\<rparr>)
      \<and> pn_sendMessage_msg env m w
        = Some (False,
            w\<lparr>socket := Some (s\<lparr>read_buffer := unfinished_line (read_buffer s)\<rparr>),
              log_sink := log_sink w @ crosstalk_records env (read_buffer s)\<rparr>))
   \<and> (reachable env w0 \<longrightarrow>
        (case socket w0 of None \<Rightarrow> True
         | Some s0 \<Rightarrow> list_all (\<lambda>write. \<not> fst write) (wire s0)))"
proof (intro conjI impI)
  assume "socket w = Some s \<and> canReadLine s"
  then show "pn_sendMessage_data env bytes w
        = Some (False,
            w\<lparr>socket := Some (s\<lparr>read_buffer := unfinished_line (read_buffer s)\<rparr>),
              log_sink := log_sink w @ crosstalk_records env (read_buffer s)\<rparr>)"
    by (simp add: pn_sendMessage_data_blocked)
next
  assume "socket w = Some s \<and> canReadLine s"
  then show "pn_sendMessage_msg env m w
        = Some (False,
            w\<lparr>socket := Some (s\<lparr>read_buffer := unfinished_line (read_buffer s)\<rparr>),
              log_sink := log_sink w @ crosstalk_records env (read_buffer s)\<rparr>)"
    by (simp add: pn_sendMessage_msg_blocked)
next
  assume "reachable env w0"
  from reachable_never_crosstalk [OF this]
  show "case socket w0 of None \<Rightarrow> True
         | Some s0 \<Rightarrow> list_all (\<lambda>write. \<not> fst write) (wire s0)"
    by (simp add: never_crosstalk_def no_crosstalk_def split: option.splits)
qed

lemma example_crosstalk_blocked:
  "socket example_crosstalk = Some example_crosstalk_socket
   \<and> canReadLine example_crosstalk_socket"
  by (simp add: example_crosstalk_def example_crosstalk_socket_def canReadLine_def CRLF_def)

lemma example_crosstalk_lines:
  "buffered_lines (read_buffer example_crosstalk_socket) = [''250 ok'' @ CRLF]
   \<and> unfinished_line (read_buffer example_crosstalk_socket) = []"
  by (simp add: example_crosstalk_socket_def buffered_lines_def unfinished_line_def CRLF_def)

lemma example_scripted_reachable: "reachable example_smtp_env example_scripted"
proof -
  have "reachable example_smtp_env example_client"
    unfolding example_client_def by (rule reach_new)
  then have "reachable example_smtp_env example_configured"
    unfolding example_configured_def by (intro reach_setServerPort reach_setServerHost)
  moreover have "setConnectionType TcpConnection example_script example_configured
      = Some example_scripted"
    by (simp add: setConnectionType_def example_scripted_def example_configured_def
        example_client_def setServerPort_def setServerHost_def newPrivateData_def
        PrivateData.defs Let_def)
  ultimately show ?thesis by (rule reach_setConnectionType)
qed

lemma example_scripted_connects:
  "\<exists>w'. connectToServer example_smtp_env example_scripted = Some (True, w')
     \<and> status w' = ST_Connected
     \<and> map_option wire (socket w') = Some [(False, ''EHLO localhost'' @ CRLF)]"
  by (simp add: connectToServer_def example_scripted_def example_configured_def
      example_script_def example_client_def setServerPort_def setServerHost_def
      newPrivateData_def PrivateData.defs newQTcpSocket_def waitForConnected_def next_wait_def
      unless_ok_def pn_waitForResponse_code_def pn_waitForResponse_def
      pn_waitForResponse_loop.simps pn_waitForResponse_lines.simps waitForReadyRead_def
      canReadLine_def readLine_def CRLF_def trimmed_def is_space_def mid_def size_of_def
      pn_logTraffic_def Let_def pn_sendAndWaitFor_def pn_sendMessage_data_def
      pn_isAllowedToSend_def pn_isAllowedToSend_loop.simps socket_write_def
      starttls_phase_def auth_phase_def fromLatin1_def toLatin1_def example_smtp_env_def
      pn_fail_def char_of_eq_iff)

theorem C2_no_write_while_line_buffered_witness:
  "socket example_crosstalk = Some example_crosstalk_socket
   \<and> canReadLine example_crosstalk_socket
   \<and> pn_sendMessage_data example_smtp_env ''NOOP'' example_crosstalk
       = Some (False,
           example_crosstalk
             \<lparr>socket := Some (example_crosstalk_socket\<lparr>read_buffer := []\<rparr>),
              log_sink := log_sink example_crosstalk
                @ crosstalk_records example_smtp_env (''250 ok'' @ CRLF)\<rparr>)
   \<and> pn_sendMessage_msg example_smtp_env example_message example_crosstalk
       = Some (False,
           example_crosstalk
             \<lparr>socket := Some (example_crosstalk_socket\<lparr>read_buffer := []\<rparr>),
              log_sink := log_sink example_crosstalk
                @ crosstalk_records example_smtp_env (''250 ok'' @ CRLF)\<rparr>)
   \<and> wire (example_crosstalk_socket\<lparr>read_buffer := []\<rparr>) = wire example_crosstalk_socket
   \<and> map snd (crosstalk_records example_smtp_env (''250 ok'' @ CRLF))
       = [fromLatin1 ''send fail, found unexpected data available to be read, was:'',
          fromLatin1 '' > msg-line: '' @ fromLatin1 (''250 ok'' @ CRLF)]
   \<and> (\<exists>w'. connectToServer example_smtp_env example_scripted = Some (True, w')
         \<and> reachable example_smtp_env w'
         \<and> map_option wire (socket w') = Some [(False, ''EHLO localhost'' @ CRLF)]
         \<and> (case socket w' of None \<Rightarrow> True
              | Some s0 \<Rightarrow> list_all (\<lambda>write. \<not> fst write) (wire s0)))"
proof -
  have records: "map snd (crosstalk_records example_smtp_env (''250 ok'' @ CRLF))
       = [fromLatin1 ''send fail, found unexpected data available to be read, was:'',
          fromLatin1 '' > msg-line: '' @ fromLatin1 (''250 ok'' @ CRLF)]"
    using example_crosstalk_lines
    by (simp add: crosstalk_records_def example_smtp_env_def example_crosstalk_socket_def)
  have buffer: "read_buffer example_crosstalk_socket = ''250 ok'' @ CRLF"
    by (simp add: example_crosstalk_socket_def)
  from example_scripted_connects obtain w1
    where connect: "connectToServer example_smtp_env example_scripted = Some (True, w1)"
      and written: "map_option wire (socket w1) = Some [(False, ''EHLO localhost'' @ CRLF)]"
    by blast
  from example_scripted_reachable connect have reached: "reachable example_smtp_env w1"
    by (rule reach_connectToServer)
  from C2_no_write_while_line_buffered
    [of example_crosstalk example_crosstalk_socket example_smtp_env "''NOOP''" example_message w1]
    example_crosstalk_blocked example_crosstalk_lines reached
  have sends: "pn_sendMessage_data example_smtp_env ''NOOP'' example_crosstalk
       = Some (False,
           example_crosstalk
             \<lparr>socket := Some (example_crosstalk_socket\<lparr>read_buffer := []\<rparr>),
              log_sink := log_sink example_crosstalk
                @ crosstalk_records example_smtp_env (''250 ok'' @ CRLF)\<rparr>)"
    and msgs: "pn_sendMessage_msg example_smtp_env example_message example_crosstalk
       = Some (False,
           example_crosstalk
             \<lparr>socket := Some (example_crosstalk_socket\<lparr>read_buffer := []\<rparr>),
              log_sink := log_sink example_crosstalk
                @ crosstalk_records example_smtp_env (''250 ok'' @ CRLF)\<rparr>)"
    and flags: "case socket w1 of None \<Rightarrow> True
              | Some s0 \<Rightarrow> list_all (\<lambda>write. \<not> fst write) (wire s0)"
    by (simp_all add: buffer)
  from connect reached written flags
  have "\<exists>w'. connectToServer example_smtp_env example_scripted = Some (True, w')
         \<and> reachable example_smtp_env w'
         \<and> map_option wire (socket w') = Some [(False, ''EHLO localhost'' @ CRLF)]
         \<and> (case socket w' of None \<Rightarrow> True
              | Some s0 \<Rightarrow> list_all (\<lambda>write. \<not> fst write) (wire s0))"
    by blast
  with example_crosstalk_blocked sends msgs records show ?thesis by simp
qed

lemma smtp_command_eq: "smtp_command env line expected = pn_sendAndWaitFor env line expected"
  by (rule ext) (simp add: smtp_command_def pn_sendAndWaitFor_def split: option.splits)

lemma mail_from_line:
  "toLatin1 (QString_arg (fromLatin1 ''MAIL FROM:<%1>'') address [])
     = ''MAIL FROM:<'' @ toLatin1 address @ ''>''"
  by (simp add: fromLatin1_def toLatin1_def char_of_eq_iff)

lemma rcpt_to_line:
  "toLatin1 (QString_arg (fromLatin1 ''RCPT TO:<%1>'') address [])
     = ''RCPT TO:<'' @ toLatin1 address @ ''>''"
  by (simp add: fromLatin1_def toLatin1_def char_of_eq_iff)

lemma body_step_unless:
  "unless_ok (pn_sendMessage_msg env m)
     (\<lambda>w1. pn_closeAndFail
              (snd (pn_fail (fromLatin1 ''unexpected error, unable to write msg to socket'') w1)))
     rest
   = unless_ok (body_step env m) pn_closeAndFail rest"
  by (rule ext) (simp add: unless_ok_def body_step_def pn_fail_def split: option.splits)

lemma rcpt_loop_steps:
  "rcpt_loop env recipients rest
     = foldr (\<lambda>step. unless_ok step pn_closeAndFail)
         (map (\<lambda>recipient.
                 smtp_command env (''RCPT TO:<'' @ toLatin1 (d_email recipient) @ ''>'') ''250'')
            recipients) rest"
  by (induction recipients) (simp_all add: smtp_command_eq rcpt_to_line)

lemma sendMessage_submission:
  assumes "MimeMessage_isValid m" and "status w = ST_Connected"
  shows "sendMessage env m w
     = foldr (\<lambda>step. unless_ok step pn_closeAndFail) (submission env m)
         (\<lambda>w'. Some (True, w')) w"
  using assms
  by (simp add: sendMessage_def submission_def rcpt_loop_steps body_step_unless
      mail_from_line smtp_command_eq [symmetric])

lemma steps_fail_close:
  "all_pass earlier w = Some w1 \<Longrightarrow> step w1 = Some (False, w2) \<Longrightarrow>
     foldr (\<lambda>step. unless_ok step pn_closeAndFail) (earlier @ step # later) rest w
       = pn_closeAndFail w2"
proof (induction earlier arbitrary: w)
  case Nil
  then show ?case by (simp add: unless_ok_def)
next
  case (Cons first earlier)
  from Cons.prems(1) obtain w0 where first: "first w = Some (True, w0)"
    and pass: "all_pass earlier w0 = Some w1"
    by (auto split: option.splits if_splits)
  from Cons.IH [OF pass Cons.prems(2)] first show ?case by (simp add: unless_ok_def)
qed

lemma steps_pass:
  "all_pass steps w = Some w' \<Longrightarrow>
     foldr (\<lambda>step. unless_ok step pn_closeAndFail) steps rest w = rest w'"
proof (induction steps arbitrary: w)
  case Nil
  then show ?case by simp
next
  case (Cons first steps)
  from Cons.prems obtain w0 where first: "first w = Some (True, w0)"
    and pass: "all_pass steps w0 = Some w'"
    by (auto split: option.splits if_splits)
  from Cons.IH [OF pass] first show ?case by (simp add: unless_ok_def)
qed

lemma refused_reply:
  assumes "socket w = Some s" and "waitForReadyRead s = (True, s1)" and "canReadLine s1"
    and "readLine s1 = (raw, s2)" and "mid (trimmed raw) 3 1 = '' ''"
    and "take 3 (trimmed raw) \<noteq> expected"
  shows "pn_waitForResponse_code env expected w
     = Some (False,
         snd (pn_fail (QString_arg (fromLatin1 ''invalid response, expected %1, received: %2'')
                         (fromUtf8 env expected) (fromUtf8 env (trimmed raw)))
                (pn_logTraffic env ''S'' (trimmed raw) (w\<lparr>socket := Some s2\<rparr>))))"
  using assms
  by (simp add: pn_waitForResponse_code_def pn_waitForResponse_def
      pn_waitForResponse_loop.simps [of env expected w]
      pn_waitForResponse_lines.simps [of env expected "w\<lparr>socket := Some s1\<rparr>"] Let_def)

lemma no_reply:
  assumes "socket w = Some s" and "waitForReadyRead s = (False, s1)"
  shows "pn_waitForResponse_code env expected w
     = Some (False,
         snd (pn_fail (fromLatin1 ''unable to wait for server response, connection timout'')
                (w\<lparr>socket := Some s1\<rparr>)))"
  using assms
  by (simp add: pn_waitForResponse_code_def pn_waitForResponse_def
      pn_waitForResponse_loop.simps [of env expected w])

lemma sendMessage_blocked:
  assumes "MimeMessage_isValid m" and "status w = ST_Connected" and "socket w = Some s"
    and "canReadLine s"
  shows "\<exists>w'. sendMessage env m w = Some (False, w')"
proof -
  let ?first = "toLatin1 (QString_arg (fromLatin1 ''MAIL FROM:<%1>'')
                          (d_email (d_senderAddress m)) [])"
  from pn_sendMessage_data_blocked [OF assms(3,4), of env ?first]
  obtain w1 where w1: "pn_sendMessage_data env ?first w = Some (False, w1)"
    and "socket w1 \<noteq> None" by simp
  then show ?thesis
    using assms(1,2)
    by (auto simp: sendMessage_def unless_ok_def pn_sendAndWaitFor_def pn_closeAndFail_def)
qed

lemma example_submission:
  "submission example_smtp_env example_message
     = [smtp_command example_smtp_env ''MAIL FROM:<a@b.co>'' ''250'']
       @ smtp_command example_smtp_env ''RCPT TO:<c@d.co>'' ''250''
       # [smtp_command example_smtp_env ''DATA'' ''354'',
          body_step example_smtp_env example_message,
          pn_waitForResponse_code example_smtp_env ''250'']"
proof -
  have fields: "d_email (d_senderAddress example_message) = fromLatin1 ''a@b.co''"
    "map d_email (d_toAddresses example_message) = [fromLatin1 ''c@d.co'']"
    "d_ccAddresses example_message = []"
    by (simp_all add: example_message_def setSenderAddress_def addToRecipient_def
        setMessageSubject_def setMessageBodyText_def dropBody_def newMimeMessage_def Let_def)
  have latin: "toLatin1 (fromLatin1 ''a@b.co'') = ''a@b.co''"
    "toLatin1 (fromLatin1 ''c@d.co'') = ''c@d.co''"
    by (simp_all add: toLatin1_def fromLatin1_def char_of_eq_iff)
  from fields(2) obtain recipient where to: "d_toAddresses example_message = [recipient]"
    and "d_email recipient = fromLatin1 ''c@d.co''" by auto
  with fields(1,3) latin show ?thesis by (simp add: submission_def)
qed

lemma example_refused_steps:
  "\<exists>w1 w2 s2.
     all_pass [smtp_command example_smtp_env ''MAIL FROM:<a@b.co>'' ''250''] example_refused
       = Some w1
     \<and> smtp_command example_smtp_env ''RCPT TO:<c@d.co>'' ''250'' w1 = Some (False, w2)
     \<and> socket w2 = Some s2 \<and> is_open s2
     \<and> wire s2 = [(False, ''MAIL FROM:<a@b.co>'' @ CRLF), (False, ''RCPT TO:<c@d.co>'' @ CRLF)]
     \<and> map (\<lambda>record. toLatin1 (snd record)) (log_sink w2)
         = [''invalid response, expected 250, received: 550 no such user'']"
  by (simp add: smtp_command_def example_refused_def example_refusing_socket_def
      example_client_def newPrivateData_def PrivateData.defs newQTcpSocket_def next_wait_def
      pn_waitForResponse_code_def pn_waitForResponse_def
      pn_waitForResponse_loop.simps pn_waitForResponse_lines.simps waitForReadyRead_def
      canReadLine_def readLine_def CRLF_def trimmed_def is_space_def mid_def size_of_def
      pn_logTraffic_def Let_def pn_sendMessage_data_def
      pn_isAllowedToSend_def pn_isAllowedToSend_loop.simps socket_write_def
      fromLatin1_def toLatin1_def example_smtp_env_def pn_fail_def char_of_eq_iff)

lemma all_pass_append:
  "all_pass (steps @ others) w
     = (case all_pass steps w of None \<Rightarrow> None | Some w1 \<Rightarrow> all_pass others w1)"
  by (induction steps arbitrary: w) (auto split: option.splits)

lemma example_accepted_commands:
  "\<exists>w s. all_pass [smtp_command example_smtp_env ''MAIL FROM:<a@b.co>'' ''250'',
                   smtp_command example_smtp_env ''RCPT TO:<c@d.co>'' ''250'',
                   smtp_command example_smtp_env ''DATA'' ''354''] example_accepted = Some w
     \<and> socket w = Some s \<and> status w = ST_Connected \<and> \<not> logSocketTraffic w
     \<and> is_open s \<and> read_buffer s = [] \<and> waits s = [Ready (''250 queued'' @ CRLF)]
     \<and> wire s = [(False, ''MAIL FROM:<a@b.co>'' @ CRLF), (False, ''RCPT TO:<c@d.co>'' @ CRLF),
                 (False, ''DATA'' @ CRLF)]"
  by (simp add: smtp_command_def example_accepted_def example_accepting_socket_def
      example_client_def newPrivateData_def PrivateData.defs newQTcpSocket_def next_wait_def
      pn_waitForResponse_code_def pn_waitForResponse_def
      pn_waitForResponse_loop.simps pn_waitForResponse_lines.simps waitForReadyRead_def
      canReadLine_def readLine_def CRLF_def trimmed_def is_space_def mid_def size_of_def
      pn_logTraffic_def Let_def pn_sendMessage_data_def
      pn_isAllowedToSend_def pn_isAllowedToSend_loop.simps socket_write_def
      fromLatin1_def toLatin1_def example_smtp_env_def pn_fail_def char_of_eq_iff)

lemma example_message_written:
  "fst (MimeMessage_writeToDev (buffer_env env) example_message st)"
proof -
  have "dev_write (buffer_env env) = buffer_write" by (simp add: buffer_env_def)
  from MimeMessage_writeToDev_buffer(1)
    [OF this built_body_is_first [OF example_message_built] example_message_valid, of st]
  show ?thesis by (simp add: example_message_parts)
qed

lemma example_body_accepted:
  assumes "socket w = Some s" and "\<not> logSocketTraffic w" and "is_open s"
    and "read_buffer s = []" and "waits s = [Ready (''250 queued'' @ CRLF)]"
  shows "\<exists>w3 s3 bytes.
     all_pass [body_step example_smtp_env example_message,
               pn_waitForResponse_code example_smtp_env ''250''] w = Some w3
     \<and> status w3 = status w \<and> socket w3 = Some s3 \<and> wire s3 = wire s @ [(False, bytes)]
     \<and> ends_with_dot_terminator bytes"
proof -
  obtain written st where run: "MimeMessage_writeToDev (buffer_env example_smtp_env)
      example_message \<lparr>device = [], uuid_calls = uuids_drawn w\<rparr> = (written, st)"
    by fastforce
  with example_message_written [of example_smtp_env "\<lparr>device = [], uuid_calls = uuids_drawn w\<rparr>"]
  have written: written by simp
  have "dev_write (buffer_env example_smtp_env) = buffer_write" by (simp add: buffer_env_def)
  from MimeMessage_writeToDev_buffer(2)
    [OF this built_body_is_first [OF example_message_built] example_message_valid,
      of "\<lparr>device = [], uuid_calls = uuids_drawn w\<rparr>"] run written
  have dot: "ends_with_dot_terminator (device st)" by simp
  have quiet: "\<not> canReadLine s" using assms(4) by (simp add: canReadLine_def)
  have body: "body_step example_smtp_env example_message w
      = Some (True, w\<lparr>uuids_drawn := uuid_calls st,
                       socket := Some (socket_write (device st) s)\<rparr>)"
    using assms(1,2) quiet run written
    by (simp add: body_step_def pn_sendMessage_msg_def pn_isAllowedToSend_def
        pn_logTraffic_def Let_def)
  have ack: "pn_waitForResponse_code example_smtp_env ''250''
        (w\<lparr>uuids_drawn := uuid_calls st, socket := Some (socket_write (device st) s)\<rparr>)
      = Some (True, w\<lparr>uuids_drawn := uuid_calls st,
                       socket := Some (s\<lparr>wire := wire s @ [(False, device st)],
                                         waits := [], read_buffer := []\<rparr>)\<rparr>)"
    using assms(2-5) quiet
    by (simp add: pn_waitForResponse_code_def pn_waitForResponse_def
        pn_waitForResponse_loop.simps pn_waitForResponse_lines.simps waitForReadyRead_def
        next_wait_def canReadLine_def readLine_def CRLF_def trimmed_def is_space_def mid_def
        size_of_def pn_logTraffic_def Let_def socket_write_def)
  from body ack dot show ?thesis by simp
qed

lemma example_accepted_submission:
  "\<exists>w3 s3 bytes. all_pass (submission example_smtp_env example_message) example_accepted = Some w3
     \<and> status w3 = ST_Connected \<and> socket w3 = Some s3
     \<and> wire s3 = [(False, ''MAIL FROM:<a@b.co>'' @ CRLF), (False, ''RCPT TO:<c@d.co>'' @ CRLF),
                  (False, ''DATA'' @ CRLF), (False, bytes)]
     \<and> ends_with_dot_terminator bytes"
proof -
  from example_accepted_commands obtain w s
    where commands: "all_pass [smtp_command example_smtp_env ''MAIL FROM:<a@b.co>'' ''250'',
                   smtp_command example_smtp_env ''RCPT TO:<c@d.co>'' ''250'',
                   smtp_command example_smtp_env ''DATA'' ''354''] example_accepted = Some w"
      and w: "socket w = Some s" "status w = ST_Connected" "\<not> logSocketTraffic w"
        "is_open s" "read_buffer s = []" "waits s = [Ready (''250 queued'' @ CRLF)]"
      and wire: "wire s = [(False, ''MAIL FROM:<a@b.co>'' @ CRLF),
          (False, ''RCPT TO:<c@d.co>'' @ CRLF), (False, ''DATA'' @ CRLF)]"
    by (elim exE conjE)
  from example_body_accepted [OF w(1,3,4,5,6)] obtain w3 s3 bytes
    where rest: "all_pass [body_step example_smtp_env example_message,
               pn_waitForResponse_code example_smtp_env ''250''] w = Some w3"
      and w3: "status w3 = status w" "socket w3 = Some s3" "wire s3 = wire s @ [(False, bytes)]"
        "ends_with_dot_terminator bytes"
    by (elim exE conjE)
  have "submission example_smtp_env example_message
      = [smtp_command example_smtp_env ''MAIL FROM:<a@b.co>'' ''250'',
         smtp_command example_smtp_env ''RCPT TO:<c@d.co>'' ''250'',
         smtp_command example_smtp_env ''DATA'' ''354'']
        @ [body_step example_smtp_env example_message,
           pn_waitForResponse_code example_smtp_env ''250'']"
    unfolding example_submission by simp
  then have "all_pass (submission example_smtp_env example_message) example_accepted = Some w3"
    using commands rest by (simp only: all_pass_append option.case)
  with w3 w(2) wire show ?thesis by simp
qed

lemma example_waits:
  "waitForReadyRead example_crosstalk_socket = (False, example_crosstalk_socket)"
  "\<exists>sock1 sock2. waitForReadyRead example_refusing_socket = (True, sock1)
     \<and> canReadLine sock1 \<and> readLine sock1 = (''250 ok'' @ CRLF, sock2)"
  "trimmed (''250 ok'' @ CRLF) = ''250 ok''"
  by (simp_all add: waitForReadyRead_def next_wait_def example_crosstalk_socket_def
      example_refusing_socket_def newQTcpSocket_def canReadLine_def readLine_def CRLF_def
      trimmed_def is_space_def Let_def)

text \<open>
  Claim C8.  For a valid message on a connected client, \<open>sendMessage\<close> runs the steps
  of the submission in their order.  Whichever step is the first to return false (the
  steps before it all returned true), \<open>sendMessage\<close> is \<open>pn_closeAndFail\<close> in the process
  that step left: it returns false, the status is disconnected and the socket is
  closed.  When every step returns true, \<open>sendMessage\<close> returns true in the process the
  last step left.  A wait fails when no data comes in time, and when the first line
  to read is the terminal line of a reply with another code than the expected one.
  On a connected client with a socket \<open>sendMessage\<close> returns, and when it returns false
  the status is disconnected and the socket is closed, so that every further
  \<open>sendMessage\<close> fails with a warning only until the client connects again; when it
  returns true the client is still connected.  When the message is not valid, or the
  client is not connected, \<open>sendMessage\<close> returns false and only writes a warning: the
  status and the socket are as they were.
\<close>

theorem C8_sendMessage_failure:
  "(MimeMessage_isValid m \<and> status w = ST_Connected
      \<and> submission env m = earlier @ step # later
      \<and> all_pass earlier w = Some w1 \<and> step w1 = Some (False, w2) \<longrightarrow>
        sendMessage env m w = pn_closeAndFail w2
        \<and> (socket w2 = Some s2 \<longrightarrow>
             sendMessage env m w
               = Some (False, w2\<lparr>status := ST_Disconnected, socket := Some (socket_close s2)\<rparr>)))
   \<and> (MimeMessage_isValid m \<and> status w = ST_Connected
        \<and> all_pass (submission env m) w = Some w3 \<longrightarrow>
        sendMessage env m w = Some (True, w3))
   \<and> (socket w = Some sock \<and> waitForReadyRead sock = (False, sock1) \<longrightarrow>
        pn_waitForResponse_code env expected w
          = Some (False,
              w\<lparr>socket := Some sock1,
                log_sink := log_sink w
                  @ [(Warning,
                      fromLatin1 ''unable to wait for server response, connection timout'')]\<rparr>))
   \<and> (socket w = Some sock \<and> waitForReadyRead sock = (True, sock1) \<and> canReadLine sock1
        \<and> readLine sock1 = (raw, sock2) \<and> mid (trimmed raw) 3 1 = '' ''
        \<and> take 3 (trimmed raw) \<noteq> expected \<longrightarrow>
        (\<exists>w'. pn_waitForResponse_code env expected w = Some (False, w')
              \<and> socket w' = Some sock2))
   \<and> (MimeMessage_isValid m \<and> status w = ST_Connected \<and> socket w \<noteq> None \<longrightarrow>
      (\<exists>r w'. sendMessage env m w = Some (r, w') \<and>
         (if r then status w' = ST_Connected \<and> socket w' \<noteq> None
          else status w' = ST_Disconnected \<and> shut w' \<and>
               (\<exists>err. sendMessage env m w' = Some (False, warned err w')))))
   \<and> (\<not> MimeMessage_isValid m \<longrightarrow>
        sendMessage env m w = Some (False, warned ''unable to send, message is not valid'' w))
   \<and> (MimeMessage_isValid m \<and> status w \<noteq> ST_Connected \<longrightarrow>
        sendMessage env m w
          = Some (False, warned ''unable to send, client is not connected'' w))
   \<and> status (warned err w) = status w \<and> socket (warned err w) = socket w"
proof (intro conjI impI)
  assume a: "MimeMessage_isValid m \<and> status w = ST_Connected
      \<and> submission env m = earlier @ step # later
      \<and> all_pass earlier w = Some w1 \<and> step w1 = Some (False, w2)"
  then have sub: "submission env m = earlier @ step # later" by simp
  from a have "sendMessage env m w
     = foldr (\<lambda>step. unless_ok step pn_closeAndFail) (earlier @ step # later)
         (\<lambda>w'. Some (True, w')) w"
    unfolding sub [symmetric] by (simp add: sendMessage_submission)
  also from a steps_fail_close [of earlier w w1 step w2 later "\<lambda>w'. Some (True, w')"]
  have "\<dots> = pn_closeAndFail w2" by simp
  finally show closes: "sendMessage env m w = pn_closeAndFail w2" .
  assume "socket w2 = Some s2"
  then show "sendMessage env m w
      = Some (False, w2\<lparr>status := ST_Disconnected, socket := Some (socket_close s2)\<rparr>)"
    unfolding closes by (simp add: pn_closeAndFail_def)
next
  assume "MimeMessage_isValid m \<and> status w = ST_Connected
        \<and> all_pass (submission env m) w = Some w3"
  then show "sendMessage env m w = Some (True, w3)"
    by (simp add: sendMessage_submission steps_pass)
next
  assume "socket w = Some sock \<and> waitForReadyRead sock = (False, sock1)"
  then show "pn_waitForResponse_code env expected w
          = Some (False,
              w\<lparr>socket := Some sock1,
                log_sink := log_sink w
                  @ [(Warning,
                      fromLatin1 ''unable to wait for server response, connection timout'')]\<rparr>)"
    by (simp add: no_reply pn_fail_def)
next
  assume "socket w = Some sock \<and> waitForReadyRead sock = (True, sock1) \<and> canReadLine sock1
        \<and> readLine sock1 = (raw, sock2) \<and> mid (trimmed raw) 3 1 = '' ''
        \<and> take 3 (trimmed raw) \<noteq> expected"
  then show "\<exists>w'. pn_waitForResponse_code env expected w = Some (False, w')
              \<and> socket w' = Some sock2"
    by (simp add: refused_reply socket_pn_fail socket_pn_logTraffic)
next
  assume a: "MimeMessage_isValid m \<and> status w = ST_Connected \<and> socket w \<noteq> None"
  then have "live False ST_Connected w"
    by (auto simp: live_def socket_ok_def)
  from sendMessage_connected [OF _ this, of m env] a
  obtain r w' where s: "sendMessage env m w = Some (r, w')"
    and c: "closed_on_failure False r w'" by blast
  show "\<exists>r w'. sendMessage env m w = Some (r, w') \<and>
         (if r then status w' = ST_Connected \<and> socket w' \<noteq> None
          else status w' = ST_Disconnected \<and> shut w' \<and>
               (\<exists>err. sendMessage env m w' = Some (False, warned err w')))"
  proof (cases r)
    case True
    with s c show ?thesis
      by (auto simp: closed_on_failure_def live_def split: option.splits)
  next
    case False
    with c have d: "status w' = ST_Disconnected" and sh: "shut w'"
      by (simp_all add: closed_on_failure_def live_def)
    from d a have "sendMessage env m w'
        = Some (False, warned ''unable to send, client is not connected'' w')"
      by (simp add: sendMessage_not_connected)
    with s False d sh show ?thesis by auto
  qed
qed (simp_all add: sendMessage_invalid sendMessage_not_connected warned_def)

theorem C8_sendMessage_failure_witness:
  "MimeMessage_isValid example_message \<and> status example_refused = ST_Connected
   \<and> (\<exists>w1 w2 s2.
         submission example_smtp_env example_message
           = [smtp_command example_smtp_env ''MAIL FROM:<a@b.co>'' ''250'']
             @ smtp_command example_smtp_env ''RCPT TO:<c@d.co>'' ''250''
             # [smtp_command example_smtp_env ''DATA'' ''354'',
                body_step example_smtp_env example_message,
                pn_waitForResponse_code example_smtp_env ''250'']
         \<and> all_pass [smtp_command example_smtp_env ''MAIL FROM:<a@b.co>'' ''250'']
               example_refused = Some w1
         \<and> smtp_command example_smtp_env ''RCPT TO:<c@d.co>'' ''250'' w1 = Some (False, w2)
         \<and> socket w2 = Some s2
         \<and> sendMessage example_smtp_env example_message example_refused
             = Some (False, w2\<lparr>status := ST_Disconnected, socket := Some (socket_close s2)\<rparr>)
         \<and> wire s2 = [(False, ''MAIL FROM:<a@b.co>'' @ CRLF),
                      (False, ''RCPT TO:<c@d.co>'' @ CRLF)]
         \<and> map (\<lambda>record. toLatin1 (snd record)) (log_sink w2)
             = [''invalid response, expected 250, received: 550 no such user''])
   \<and> status example_accepted = ST_Connected
   \<and> (\<exists>w3 s3 bytes.
         all_pass (submission example_smtp_env example_message) example_accepted = Some w3
         \<and> sendMessage example_smtp_env example_message example_accepted = Some (True, w3)
         \<and> status w3 = ST_Connected \<and> socket w3 = Some s3
         \<and> wire s3 = [(False, ''MAIL FROM:<a@b.co>'' @ CRLF),
                      (False, ''RCPT TO:<c@d.co>'' @ CRLF),
                      (False, ''DATA'' @ CRLF), (False, bytes)]
         \<and> ends_with_dot_terminator bytes)
   \<and> waitForReadyRead example_crosstalk_socket = (False, example_crosstalk_socket)
   \<and> pn_waitForResponse_code example_smtp_env ''250'' example_crosstalk
       = Some (False,
           example_crosstalk
             \<lparr>socket := Some example_crosstalk_socket,
              log_sink := log_sink example_crosstalk
                @ [(Warning,
                    fromLatin1 ''unable to wait for server response, connection timout'')]\<rparr>)
   \<and> (\<exists>sock1 sock2 w'. waitForReadyRead example_refusing_socket = (True, sock1)
         \<and> readLine sock1 = (''250 ok'' @ CRLF, sock2)
         \<and> pn_waitForResponse_code example_smtp_env ''354'' example_refused = Some (False, w')
         \<and> socket w' = Some sock2)
   \<and> status example_crosstalk = ST_Connected \<and> socket example_crosstalk \<noteq> None
   \<and> (\<exists>w'. sendMessage example_smtp_env example_message example_crosstalk = Some (False, w')
         \<and> status w' = ST_Disconnected \<and> shut w'
         \<and> (\<exists>err. sendMessage example_smtp_env example_message w' = Some (False, warned err w')))
   \<and> \<not> MimeMessage_isValid newMimeMessage
   \<and> sendMessage example_smtp_env newMimeMessage example_crosstalk
       = Some (False, warned ''unable to send, message is not valid'' example_crosstalk)
   \<and> status example_client \<noteq> ST_Connected
   \<and> sendMessage example_smtp_env example_message example_client
       = Some (False, warned ''unable to send, client is not connected'' example_client)"
proof -
  have refused: "status example_refused = ST_Connected"
    and refused_socket: "socket example_refused = Some example_refusing_socket"
    by (simp_all add: example_refused_def)
  have accepted: "status example_accepted = ST_Connected"
    by (simp add: example_accepted_def)
  have connected: "status example_crosstalk = ST_Connected"
    by (simp add: example_crosstalk_def)
  have disconnected: "status example_client \<noteq> ST_Connected"
    by (simp add: example_client_def newPrivateData_def PrivateData.defs)
  have invalid: "\<not> MimeMessage_isValid newMimeMessage"
    by (simp add: MimeMessage_isValid_def newMimeMessage_def EmailAddress_isValid_def)
  note valid = example_message_valid
  from example_refused_steps obtain w1 w2 s2
    where pass: "all_pass [smtp_command example_smtp_env ''MAIL FROM:<a@b.co>'' ''250'']
               example_refused = Some w1"
      and fail: "smtp_command example_smtp_env ''RCPT TO:<c@d.co>'' ''250'' w1 = Some (False, w2)"
      and s2: "socket w2 = Some s2"
      and wire: "wire s2 = [(False, ''MAIL FROM:<a@b.co>'' @ CRLF),
                      (False, ''RCPT TO:<c@d.co>'' @ CRLF)]"
      and records: "map (\<lambda>record. toLatin1 (snd record)) (log_sink w2)
             = [''invalid response, expected 250, received: 550 no such user'']"
    by (elim exE conjE)
  from C8_sendMessage_failure [THEN conjunct1, rule_format,
      where m = example_message and w = example_refused and env = example_smtp_env
        and earlier = "[smtp_command example_smtp_env ''MAIL FROM:<a@b.co>'' ''250'']"
        and step = "smtp_command example_smtp_env ''RCPT TO:<c@d.co>'' ''250''"
        and later = "[smtp_command example_smtp_env ''DATA'' ''354'',
                body_step example_smtp_env example_message,
                pn_waitForResponse_code example_smtp_env ''250'']"
        and ?w1.0 = w1 and ?w2.0 = w2 and ?s2.0 = s2]
    valid refused example_submission pass fail s2
  have closed: "sendMessage example_smtp_env example_message example_refused
      = Some (False, w2\<lparr>status := ST_Disconnected, socket := Some (socket_close s2)\<rparr>)"
    by blast
  from example_submission pass fail s2 closed wire records
  have first: "\<exists>w1 w2 s2.
         submission example_smtp_env example_message
           = [smtp_command example_smtp_env ''MAIL FROM:<a@b.co>'' ''250'']
             @ smtp_command example_smtp_env ''RCPT TO:<c@d.co>'' ''250''
             # [smtp_command example_smtp_env ''DATA'' ''354'',
                body_step example_smtp_env example_message,
                pn_waitForResponse_code example_smtp_env ''250'']
         \<and> all_pass [smtp_command example_smtp_env ''MAIL FROM:<a@b.co>'' ''250'']
               example_refused = Some w1
         \<and> smtp_command example_smtp_env ''RCPT TO:<c@d.co>'' ''250'' w1 = Some (False, w2)
         \<and> socket w2 = Some s2
         \<and> sendMessage example_smtp_env example_message example_refused
             = Some (False, w2\<lparr>status := ST_Disconnected, socket := Some (socket_close s2)\<rparr>)
         \<and> wire s2 = [(False, ''MAIL FROM:<a@b.co>'' @ CRLF),
                      (False, ''RCPT TO:<c@d.co>'' @ CRLF)]
         \<and> map (\<lambda>record. toLatin1 (snd record)) (log_sink w2)
             = [''invalid response, expected 250, received: 550 no such user'']"
    by (intro exI conjI)
  from example_accepted_submission obtain w3 s3 bytes
    where all: "all_pass (submission example_smtp_env example_message) example_accepted = Some w3"
      and w3: "status w3 = ST_Connected" "socket w3 = Some s3"
        "wire s3 = [(False, ''MAIL FROM:<a@b.co>'' @ CRLF),
                      (False, ''RCPT TO:<c@d.co>'' @ CRLF),
                      (False, ''DATA'' @ CRLF), (False, bytes)]"
        "ends_with_dot_terminator bytes"
    by (elim exE conjE)
  from C8_sendMessage_failure [THEN conjunct2, THEN conjunct1, rule_format,
      where m = example_message and w = example_accepted and env = example_smtp_env
        and ?w3.0 = w3] valid accepted all
  have sent: "sendMessage example_smtp_env example_message example_accepted = Some (True, w3)"
    by blast
  from all sent w3
  have second: "\<exists>w3 s3 bytes.
         all_pass (submission example_smtp_env example_message) example_accepted = Some w3
         \<and> sendMessage example_smtp_env example_message example_accepted = Some (True, w3)
         \<and> status w3 = ST_Connected \<and> socket w3 = Some s3
         \<and> wire s3 = [(False, ''MAIL FROM:<a@b.co>'' @ CRLF),
                      (False, ''RCPT TO:<c@d.co>'' @ CRLF),
                      (False, ''DATA'' @ CRLF), (False, bytes)]
         \<and> ends_with_dot_terminator bytes"
    by (intro exI conjI)
  from example_crosstalk_blocked have crosstalk_socket:
    "socket example_crosstalk = Some example_crosstalk_socket" by simp
  then have present: "socket example_crosstalk \<noteq> None" by simp
  from C8_sendMessage_failure [THEN conjunct2, THEN conjunct2, THEN conjunct1, rule_format,
      where w = example_crosstalk and sock = example_crosstalk_socket
        and ?sock1.0 = example_crosstalk_socket and env = example_smtp_env and expected = "''250''"]
    crosstalk_socket example_waits(1)
  have timeout: "pn_waitForResponse_code example_smtp_env ''250'' example_crosstalk
       = Some (False,
           example_crosstalk
             \<lparr>socket := Some example_crosstalk_socket,
              log_sink := log_sink example_crosstalk
                @ [(Warning,
                    fromLatin1 ''unable to wait for server response, connection timout'')]\<rparr>)"
    by blast
  from example_waits(2) obtain sock1 sock2
    where ready: "waitForReadyRead example_refusing_socket = (True, sock1)"
      and line: "canReadLine sock1" "readLine sock1 = (''250 ok'' @ CRLF, sock2)"
    by (elim exE conjE)
  have terminal: "mid (trimmed (''250 ok'' @ CRLF)) 3 1 = '' ''"
    "take 3 (trimmed (''250 ok'' @ CRLF)) \<noteq> ''354''"
    unfolding example_waits(3) by (simp_all add: mid_def)
  from C8_sendMessage_failure [THEN conjunct2, THEN conjunct2, THEN conjunct2, THEN conjunct1,
      rule_format,
      where w = example_refused and sock = example_refusing_socket and ?sock1.0 = sock1
        and ?sock2.0 = sock2 and raw = "''250 ok'' @ CRLF" and env = example_smtp_env
        and expected = "''354''"]
    refused_socket ready line terminal
  obtain w' where other:
    "pn_waitForResponse_code example_smtp_env ''354'' example_refused = Some (False, w')"
    "socket w' = Some sock2"
    by blast
  from ready line(2) other
  have third: "\<exists>sock1 sock2 w'. waitForReadyRead example_refusing_socket = (True, sock1)
         \<and> readLine sock1 = (''250 ok'' @ CRLF, sock2)
         \<and> pn_waitForResponse_code example_smtp_env ''354'' example_refused = Some (False, w')
         \<and> socket w' = Some sock2"
    by (intro exI conjI)
  from sendMessage_blocked [OF valid connected, of example_crosstalk_socket
      example_smtp_env] example_crosstalk_blocked
  obtain wb where blocked:
    "sendMessage example_smtp_env example_message example_crosstalk = Some (False, wb)"
    by auto
  from C8_sendMessage_failure [THEN conjunct2, THEN conjunct2, THEN conjunct2, THEN conjunct2,
      THEN conjunct1, rule_format,
      where m = example_message and w = example_crosstalk and env = example_smtp_env]
    valid connected present
  obtain r wc where outcome:
    "sendMessage example_smtp_env example_message example_crosstalk = Some (r, wc)"
    "if r then status wc = ST_Connected \<and> socket wc \<noteq> None
     else status wc = ST_Disconnected \<and> shut wc \<and>
          (\<exists>err. sendMessage example_smtp_env example_message wc = Some (False, warned err wc))"
    by blast
  from outcome(1) blocked have "\<not> r" and "wc = wb" by simp_all
  with outcome(2) blocked
  have fourth: "\<exists>w'. sendMessage example_smtp_env example_message example_crosstalk
           = Some (False, w')
         \<and> status w' = ST_Disconnected \<and> shut w'
         \<and> (\<exists>err. sendMessage example_smtp_env example_message w' = Some (False, warned err w'))"
    by auto
  from C8_sendMessage_failure [THEN conjunct2, THEN conjunct2, THEN conjunct2, THEN conjunct2,
      THEN conjunct2, THEN conjunct1, rule_format,
      where m = newMimeMessage and w = example_crosstalk and env = example_smtp_env] invalid
  have fifth: "sendMessage example_smtp_env newMimeMessage example_crosstalk
       = Some (False, warned ''unable to send, message is not valid'' example_crosstalk)"
    by blast
  from C8_sendMessage_failure [THEN conjunct2, THEN conjunct2, THEN conjunct2, THEN conjunct2,
      THEN conjunct2, THEN conjunct2, THEN conjunct1, rule_format,
      where m = example_message and w = example_client and env = example_smtp_env]
    valid disconnected
  have sixth: "sendMessage example_smtp_env example_message example_client
       = Some (False, warned ''unable to send, client is not connected'' example_client)"
    by blast
  from valid refused first accepted second example_waits(1) timeout third connected present
    fourth invalid fifth disconnected sixth
  show ?thesis by (intro conjI)
qed

end
